theory Spec2Isabelle
  imports
    Complex_Main
    "HOL-Library.Multiset"
    "HOL-Library.Char_ord"
    "HOL-Library.List_Lexorder"
    "HOL-Library.Product_Lexorder"
begin

section \<open>Out-of-stock persistence: the streak engine of \<^verbatim>\<open>daily_store_product.py\<close>\<close>

text \<open>
  The engine is \<^verbatim>\<open>calc_full_oos_streaks(df, rate_threshold)\<close>, written with pandas.
  A DataFrame is modelled as the list of its rows, a row as a record of its columns.
  Text columns are \<open>string\<close> (ordered as Python orders \<open>str\<close>: lexicographically by
  character code), \<^verbatim>\<open>dt\<close> is a day number, \<^verbatim>\<open>oos_rate\<close> is a nullable exact rational
  (the SQL quotient of two sums; SQL \<^verbatim>\<open>NULL\<close> is \<open>None\<close>), and the threshold is a rational:
  the only arithmetic on them is the comparison of line 72, which Python decides exactly.
  The key columns \<^verbatim>\<open>store_name\<close>, \<^verbatim>\<open>e_code\<close> and \<^verbatim>\<open>dt\<close> are never null, and the frame
  has the unique row labels that \<^verbatim>\<open>read_sql\<close> gives it.
\<close>

subsection \<open>Tables\<close>

record daily =
  dt :: int
  store_name :: string
  e_code :: string
  oos_cnt :: int
  total_cnt :: int
  oos_rate :: "rat option"

record flagged = daily +
  is_full_oos :: bool

record runrow = flagged +
  run_id :: nat

record run =
  run_store_name :: string
  run_e_code :: string
  run_run_id :: nat
  run_is_full_oos :: bool
  start_dt :: int
  end_dt :: int
  days :: nat

record summary =
  sum_store_name :: string
  sum_e_code :: string
  max_streak_start_dt :: int
  max_streak_end_dt :: int
  max_full_oos_streak_days :: nat
  total_full_oos_days :: nat

subsection \<open>The pandas operations the function uses\<close>

text \<open>\<^verbatim>\<open>Series.fillna(v)\<close>: a missing value becomes \<open>v\<close>.\<close>

definition fillna :: "'a \<Rightarrow> 'a option \<Rightarrow> 'a" where
  "fillna v x = (case x of None \<Rightarrow> v | Some y \<Rightarrow> y)"

text \<open>
  \<^verbatim>\<open>DataFrame.sort_values(cols)\<close> on several columns goes through pandas' lexsort
  indexer, which keeps rows with equal keys in their previous order; it is the stable sort
  \<^const>\<open>sort_key\<close> on the tuple of the columns. A descending column is sorted on its
  negation, which again leaves ties in their previous order.
\<close>

definition sort_values :: "('a \<Rightarrow> 'k::linorder) \<Rightarrow> 'a list \<Rightarrow> 'a list" where
  "sort_values f df = sort_key f df"

text \<open>
  \<^verbatim>\<open>DataFrame.groupby(cols)\<close> (with the default \<^verbatim>\<open>sort=True\<close>): the distinct keys in
  ascending order, each with its rows in the order they have in the frame.
\<close>

definition group_keys :: "('a \<Rightarrow> 'k::linorder) \<Rightarrow> 'a list \<Rightarrow> 'k list" where
  "group_keys f df = sort (remdups (map f df))"

definition groupby :: "('a \<Rightarrow> 'k::linorder) \<Rightarrow> 'a list \<Rightarrow> ('k \<times> 'a list) list" where
  "groupby f df = map (\<lambda>k. (k, filter (\<lambda>r. f r = k) df)) (group_keys f df)"

text \<open>\<^verbatim>\<open>groupby(cols).head(1)\<close>: the rows that are the first of their group, in frame order.\<close>

fun groupby_head1 :: "('a \<Rightarrow> 'k) \<Rightarrow> 'k list \<Rightarrow> 'a list \<Rightarrow> 'a list" where
  "groupby_head1 f seen [] = []"
| "groupby_head1 f seen (r # rs) =
     (if f r \<in> set seen then groupby_head1 f seen rs
      else r # groupby_head1 f (f r # seen) rs)"

text \<open>\<^verbatim>\<open>s.shift(1)\<close>: every value moves one place down, the first place becomes missing.\<close>

definition shift1 :: "'a list \<Rightarrow> 'a option list" where
  "shift1 s = take (length s) (None # map Some s)"

text \<open>\<^verbatim>\<open>cumsum\<close> of a boolean series (\<open>True\<close> counts 1), from a running total.\<close>

fun cumsum_from :: "nat \<Rightarrow> bool list \<Rightarrow> nat list" where
  "cumsum_from acc [] = []"
| "cumsum_from acc (b # bs) = (acc + of_bool b) # cumsum_from (acc + of_bool b) bs"

definition cumsum :: "bool list \<Rightarrow> nat list" where
  "cumsum bs = cumsum_from 0 bs"

text \<open>The lambda of line 83, \<^verbatim>\<open>(s != s.shift(1)).cumsum()\<close>, on one group's flags.\<close>

definition run_ids :: "bool list \<Rightarrow> nat list" where
  "run_ids s = cumsum (map2 (\<lambda>a b. Some a \<noteq> b) s (shift1 s))"

subsection \<open>\<^verbatim>\<open>load_daily_store_product\<close>: the rate column\<close>

text \<open>\<^verbatim>\<open>SUM(oos_cnt) / NULLIF(SUM(total_cnt), 0)\<close>: \<^verbatim>\<open>NULL\<close> when the total is 0.\<close>

definition sql_oos_rate :: "int \<Rightarrow> int \<Rightarrow> rat option" where
  "sql_oos_rate oos tot = (if tot = 0 then None else Some (of_int oos / of_int tot))"

subsection \<open>\<^verbatim>\<open>calc_full_oos_streaks\<close>\<close>

type_synonym group_key = "string \<times> string"

definition group_cols :: "'a daily_scheme \<Rightarrow> group_key" where
  "group_cols r = (store_name r, e_code r)"

text \<open>Line 72: \<^verbatim>\<open>df["is_full_oos"] = df["oos_rate"].fillna(0) >= rate_threshold\<close>.\<close>

definition full_oos_flag :: "rat \<Rightarrow> rat option \<Rightarrow> bool" where
  "full_oos_flag rate_threshold r = (fillna 0 r \<ge> rate_threshold)"

definition add_is_full_oos :: "rat \<Rightarrow> daily \<Rightarrow> flagged" where
  "add_is_full_oos rate_threshold r =
     \<lparr>dt = dt r, store_name = store_name r, e_code = e_code r, oos_cnt = oos_cnt r,
      total_cnt = total_cnt r, oos_rate = oos_rate r,
      is_full_oos = full_oos_flag rate_threshold (oos_rate r)\<rparr>"

definition add_run_id :: "flagged \<Rightarrow> nat \<Rightarrow> runrow" where
  "add_run_id r i =
     \<lparr>dt = dt r, store_name = store_name r, e_code = e_code r, oos_cnt = oos_cnt r,
      total_cnt = total_cnt r, oos_rate = oos_rate r, is_full_oos = is_full_oos r,
      run_id = i\<rparr>"

text \<open>Line 75: \<^verbatim>\<open>df.sort_values(["store_name", "e_code", "dt"])\<close>.\<close>

definition sort_cols :: "'a daily_scheme \<Rightarrow> string \<times> string \<times> int" where
  "sort_cols r = (store_name r, e_code r, dt r)"

text \<open>
  Lines 81 to 85: per group, the run ids of the group's flag column, written back as the
  column \<^verbatim>\<open>run_id\<close>. The write aligns on the row index; the frame is sorted on the group
  columns first, so its groups are its consecutive blocks and the groups in key order,
  one after the other, are the frame itself (lemma \<open>concat_groupby_sorted\<close> below).
\<close>

definition group_run_ids :: "flagged list \<Rightarrow> runrow list" where
  "group_run_ids g = map2 add_run_id g (run_ids (map is_full_oos g))"

definition assign_run_id :: "flagged list \<Rightarrow> runrow list" where
  "assign_run_id df = concat (map (\<lambda>(k, g). group_run_ids g) (groupby group_cols df))"

text \<open>
  Lines 88 to 96: \<^verbatim>\<open>groupby(group_cols + ["run_id"], as_index=False).agg(...)\<close>, one row
  per (store, product, run id) with the first flag, the least and greatest date and the
  number of rows. A group is never empty, so \<open>hd\<close>, \<open>Min\<close> and \<open>Max\<close> are applied to
  non-empty lists only.
\<close>

definition run_cols :: "runrow \<Rightarrow> string \<times> string \<times> nat" where
  "run_cols r = (store_name r, e_code r, run_id r)"

definition agg_run :: "(string \<times> string \<times> nat) \<times> runrow list \<Rightarrow> run" where
  "agg_run kg = (case kg of ((s, e, i), g) \<Rightarrow>
     \<lparr>run_store_name = s, run_e_code = e, run_run_id = i,
      run_is_full_oos = is_full_oos (hd g),
      start_dt = Min (set (map dt g)),
      end_dt = Max (set (map dt g)),
      days = length g\<rparr>)"

definition make_runs :: "runrow list \<Rightarrow> run list" where
  "make_runs df = map agg_run (groupby run_cols df)"

text \<open>
  Lines 99 to 112: the flagged runs, sorted on (store, product, days descending), the first
  row of every group, renamed.
\<close>

definition run_group :: "run \<Rightarrow> group_key" where
  "run_group r = (run_store_name r, run_e_code r)"

definition streak_cols :: "run \<Rightarrow> string \<times> string \<times> int" where
  "streak_cols r = (run_store_name r, run_e_code r, - int (days r))"

definition max_streaks :: "run list \<Rightarrow> run list" where
  "max_streaks runs =
     groupby_head1 run_group [] (sort_values streak_cols (filter run_is_full_oos runs))"

text \<open>Lines 115 to 119: the number of flagged rows of every group that has one.\<close>

definition total_full_days :: "runrow list \<Rightarrow> (group_key \<times> nat) list" where
  "total_full_days df = map (\<lambda>(k, g). (k, length g)) (groupby group_cols (filter is_full_oos df))"

text \<open>
  Lines 121 to 123: the left merge on the group columns (the right table has one row per
  key), a missing total filled with 0.
\<close>

definition merge_total :: "(group_key \<times> nat) list \<Rightarrow> run \<Rightarrow> summary" where
  "merge_total totals r =
     \<lparr>sum_store_name = run_store_name r, sum_e_code = run_e_code r,
      max_streak_start_dt = start_dt r, max_streak_end_dt = end_dt r,
      max_full_oos_streak_days = days r,
      total_full_oos_days = fillna 0 (map_of totals (run_group r))\<rparr>"

definition calc_full_oos_streaks ::
    "daily list \<Rightarrow> rat \<Rightarrow> runrow list \<times> run list \<times> summary list" where
  "calc_full_oos_streaks df rate_threshold =
     (let df1 = map (add_is_full_oos rate_threshold) df;
          df2 = sort_values sort_cols df1;
          df3 = assign_run_id df2;
          runs = make_runs df3;
          summary = map (merge_total (total_full_days df3)) (max_streaks runs)
      in (df3, runs, summary))"

subsection \<open>The ranked view of \<^verbatim>\<open>main\<close>\<close>

text \<open>
  \<^verbatim>\<open>summary.sort_values(["max_full_oos_streak_days", "total_full_oos_days"],
  ascending=False).head(n)\<close>, with \<open>n = 20\<close> in \<^verbatim>\<open>daily_store_product.py\<close> and \<open>n = 10\<close> in
  \<^verbatim>\<open>viz_top10_store_problem.py\<close>.
\<close>

definition rank_cols :: "summary \<Rightarrow> int \<times> int" where
  "rank_cols s = (- int (max_full_oos_streak_days s), - int (total_full_oos_days s))"

definition top :: "nat \<Rightarrow> summary list \<Rightarrow> summary list" where
  "top n summary = take n (sort_values rank_cols summary)"

subsection \<open>\<^verbatim>\<open>calc_full_oos_streaks\<close> on a store of tables\<close>

text \<open>
  Python hands the caller's DataFrame to the function by reference, and a column
  assignment \<^verbatim>\<open>df[c] = v\<close> changes the object that the name \<^verbatim>\<open>df\<close> refers to. To see
  what the function does to the caller's table, the tables live in a store, a list of
  objects addressed by position: \<^verbatim>\<open>copy\<close>, \<^verbatim>\<open>sort_values\<close>, \<^verbatim>\<open>agg\<close> and the chain that
  builds the summary make a new object, a column assignment updates an object in place,
  and \<^verbatim>\<open>df = ...\<close> rebinds the local name to the address of the new object. A frame that
  has not the columns a step reads makes the step fail (\<open>None\<close>; pandas raises
  \<^verbatim>\<open>KeyError\<close>).
\<close>

datatype table =
    Daily "daily list"
  | Flagged "flagged list"
  | Runrows "runrow list"
  | Runs "run list"
  | Summaries "summary list"

type_synonym store = "table list"

definition new_object :: "table \<Rightarrow> store \<Rightarrow> nat \<times> store" where
  "new_object t h = (length h, h @ [t])"

text \<open>Line 69, \<^verbatim>\<open>df = df.copy()\<close>: a new object with the same rows.\<close>

definition copy_frame :: "nat \<Rightarrow> store \<Rightarrow> (nat \<times> store) option" where
  "copy_frame a h = (if a < length h then Some (new_object (h ! a) h) else None)"

text \<open>Line 72, \<^verbatim>\<open>df["is_full_oos"] = ...\<close>: the object at \<open>a\<close> gets the column, in place.\<close>

definition set_is_full_oos :: "rat \<Rightarrow> nat \<Rightarrow> store \<Rightarrow> store option" where
  "set_is_full_oos rate_threshold a h =
     (if a < length h then
        (case h ! a of
           Daily rows \<Rightarrow> Some (h[a := Flagged (map (add_is_full_oos rate_threshold) rows)])
         | _ \<Rightarrow> None)
      else None)"

text \<open>Line 75, \<^verbatim>\<open>df = df.sort_values(...)\<close>: a new, sorted object.\<close>

definition sorted_frame :: "nat \<Rightarrow> store \<Rightarrow> (nat \<times> store) option" where
  "sorted_frame a h =
     (if a < length h then
        (case h ! a of
           Flagged rows \<Rightarrow> Some (new_object (Flagged (sort_values sort_cols rows)) h)
         | _ \<Rightarrow> None)
      else None)"

text \<open>Lines 81 to 85, \<^verbatim>\<open>df["run_id"] = ...\<close>: the object at \<open>a\<close> gets the column, in place.\<close>

definition set_run_id :: "nat \<Rightarrow> store \<Rightarrow> store option" where
  "set_run_id a h =
     (if a < length h then
        (case h ! a of
           Flagged rows \<Rightarrow> Some (h[a := Runrows (assign_run_id rows)])
         | _ \<Rightarrow> None)
      else None)"

text \<open>
  Lines 88 to 123: the run table and the summary are new objects computed from the
  object at \<open>a\<close>. (The frames in between, \<^verbatim>\<open>full_runs\<close>, \<^verbatim>\<open>total_full_days\<close> and the
  results of \<^verbatim>\<open>rename\<close>, \<^verbatim>\<open>drop\<close> and \<^verbatim>\<open>merge\<close>, are new objects too, which nothing
  refers to afterwards; the two \<^verbatim>\<open>astype(int)\<close> assignments write the summary's own
  columns back to it unchanged.)
\<close>

definition runs_and_summary :: "nat \<Rightarrow> store \<Rightarrow> ((nat \<times> nat) \<times> store) option" where
  "runs_and_summary a h =
     (if a < length h then
        (case h ! a of
           Runrows rows \<Rightarrow>
             (let (runs, h1) = new_object (Runs (make_runs rows)) h;
                  (summary, h2) =
                    new_object
                      (Summaries (map (merge_total (total_full_days rows))
                        (max_streaks (make_runs rows)))) h1
              in Some ((runs, summary), h2))
         | _ \<Rightarrow> None)
      else None)"

text \<open>
  The function: \<open>df\<close> is the address the caller passes; the result is the three addresses
  returned and the store afterwards.
\<close>

definition calc_full_oos_streaks_store ::
    "nat \<Rightarrow> rat \<Rightarrow> store \<Rightarrow> ((nat \<times> nat \<times> nat) \<times> store) option" where
  "calc_full_oos_streaks_store df rate_threshold h =
     (case copy_frame df h of
        None \<Rightarrow> None
      | Some (df1, h1) \<Rightarrow>
          (case set_is_full_oos rate_threshold df1 h1 of
             None \<Rightarrow> None
           | Some h2 \<Rightarrow>
               (case sorted_frame df1 h2 of
                  None \<Rightarrow> None
                | Some (df2, h3) \<Rightarrow>
                    (case set_run_id df2 h3 of
                       None \<Rightarrow> None
                     | Some h4 \<Rightarrow>
                         (case runs_and_summary df2 h4 of
                            None \<Rightarrow> None
                          | Some ((runs, summary), h5) \<Rightarrow>
                              Some ((df2, runs, summary), h5))))))"


section \<open>Notions used in the proofs\<close>

text \<open>
  The maximal blocks of consecutive rows with the same key: on a frame sorted on the key
  they are the groups of \<^const>\<open>groupby\<close>, and on one group's flag column they are the
  runs. \<open>rid_from\<close> is \<^const>\<open>run_ids\<close> started from any counter and previous flag,
  \<open>numbered\<close> gives the rows of the n-th block the run id n, and \<open>block_runs\<close> is the
  run table of one group written from its blocks.
\<close>

fun blocks :: "('a \<Rightarrow> 'k) \<Rightarrow> 'a list \<Rightarrow> 'a list list" where
  "blocks f [] = []"
| "blocks f (x # xs) =
     (case blocks f xs of
        [] \<Rightarrow> [[x]]
      | b # bs \<Rightarrow> if f x = f (hd b) then (x # b) # bs else [x] # b # bs)"

definition rid_from :: "nat \<Rightarrow> bool option \<Rightarrow> bool list \<Rightarrow> nat list" where
  "rid_from n p s = cumsum_from n (map2 (\<lambda>a b. Some a \<noteq> b) s (p # map Some s))"

fun numbered :: "nat \<Rightarrow> flagged list list \<Rightarrow> runrow list list" where
  "numbered n [] = []"
| "numbered n (b # bs) = map (\<lambda>r. add_run_id r n) b # numbered (Suc n) bs"

definition block_run :: "group_key \<Rightarrow> nat \<Rightarrow> flagged list \<Rightarrow> run" where
  "block_run k i b =
     \<lparr>run_store_name = fst k, run_e_code = snd k, run_run_id = i,
      run_is_full_oos = is_full_oos (hd b),
      start_dt = Min (set (map dt b)), end_dt = Max (set (map dt b)), days = length b\<rparr>"

fun block_runs :: "group_key \<Rightarrow> nat \<Rightarrow> flagged list list \<Rightarrow> run list" where
  "block_runs k n [] = []"
| "block_runs k n (b # bs) = block_run k n b # block_runs k (Suc n) bs"

text \<open>
  To state the claims: the group of a summary row, and the rows of the returned daily
  table that carry a run's (store, product, run id), its member records.
\<close>

definition sum_group :: "summary \<Rightarrow> group_key" where
  "sum_group s = (sum_store_name s, sum_e_code s)"

definition run_members :: "runrow list \<Rightarrow> run \<Rightarrow> runrow list" where
  "run_members df r =
     filter (\<lambda>x. run_cols x = (run_store_name r, run_e_code r, run_run_id r)) df"

text \<open>
  Concrete inputs. \<open>loaded_row\<close> is a row as \<^verbatim>\<open>load_daily_store_product\<close> delivers it:
  the two sums and their quotient.
\<close>

definition loaded_row :: "string \<Rightarrow> string \<Rightarrow> int \<Rightarrow> int \<Rightarrow> int \<Rightarrow> daily" where
  "loaded_row s e d oos tot =
     \<lparr>dt = d, store_name = s, e_code = e, oos_cnt = oos, total_cnt = tot,
      oos_rate = sql_oos_rate oos tot\<rparr>"

text \<open>Days 1, 2, 4, 5 (no row for day 3), all fully out of stock.\<close>

definition gap_example :: "daily list" where
  "gap_example =
     [loaded_row ''S1'' ''P1'' 1 3 3, loaded_row ''S1'' ''P1'' 2 3 3,
      loaded_row ''S1'' ''P1'' 4 3 3, loaded_row ''S1'' ''P1'' 5 3 3]"

text \<open>Six consecutive days with flags true, true, false, true, true, true.\<close>

definition six_days_example :: "daily list" where
  "six_days_example =
     [loaded_row ''S1'' ''P1'' 1 3 3, loaded_row ''S1'' ''P1'' 2 3 3,
      loaded_row ''S1'' ''P1'' 3 1 3, loaded_row ''S1'' ''P1'' 4 3 3,
      loaded_row ''S1'' ''P1'' 5 3 3, loaded_row ''S1'' ''P1'' 6 3 3]"

text \<open>Two flagged runs of the same greatest length 2, days 1 to 2 and 4 to 5, rows unsorted.\<close>

definition tie_example :: "daily list" where
  "tie_example =
     [loaded_row ''S1'' ''P1'' 4 2 2, loaded_row ''S1'' ''P1'' 5 2 2,
      loaded_row ''S1'' ''P1'' 3 0 2, loaded_row ''S1'' ''P1'' 1 2 2,
      loaded_row ''S1'' ''P1'' 2 2 2, loaded_row ''S1'' ''P1'' 6 0 2,
      loaded_row ''S1'' ''P1'' 7 2 2]"

text \<open>A group that is never fully out of stock, next to one that is for a day.\<close>

definition never_out_example :: "daily list" where
  "never_out_example =
     [loaded_row ''S1'' ''P1'' 1 0 4, loaded_row ''S1'' ''P1'' 2 1 4,
      loaded_row ''S2'' ''P1'' 1 4 4]"

text \<open>One group with the date 2 twice and the rows out of date order.\<close>

definition duplicate_example :: "daily list" where
  "duplicate_example =
     [loaded_row ''S1'' ''P1'' 3 2 2, loaded_row ''S1'' ''P1'' 2 2 2,
      loaded_row ''S1'' ''P1'' 2 0 2, loaded_row ''S1'' ''P1'' 1 2 2]"

text \<open>
  A summary table as \<^verbatim>\<open>viz_top10_store_problem.py\<close> may read it from its CSV file:
  three groups with the same two metrics, in the order B, A, C.
\<close>

definition tied_summaries :: "summary list" where
  "tied_summaries =
     [\<lparr>sum_store_name = ''B'', sum_e_code = ''P'', max_streak_start_dt = 1,
        max_streak_end_dt = 2, max_full_oos_streak_days = 2, total_full_oos_days = 3\<rparr>,
      \<lparr>sum_store_name = ''A'', sum_e_code = ''P'', max_streak_start_dt = 1,
        max_streak_end_dt = 2, max_full_oos_streak_days = 2, total_full_oos_days = 3\<rparr>,
      \<lparr>sum_store_name = ''C'', sum_e_code = ''P'', max_streak_start_dt = 1,
        max_streak_end_dt = 2, max_full_oos_streak_days = 2, total_full_oos_days = 3\<rparr>]"

section \<open>Grouping a sorted frame\<close>

lemma concat_blocks [simp]: "concat (blocks f xs) = xs"
  by (induction xs) (auto split: list.splits)

lemma blocks_eq_Nil_iff [simp]: "blocks f xs = [] \<longleftrightarrow> xs = []"
  by (cases xs) (auto split: list.splits)

lemma blocks_nonempty: "[] \<notin> set (blocks f xs)"
  by (induction xs) (auto split: list.splits)

lemma hd_hd_blocks: "xs \<noteq> [] \<Longrightarrow> hd (hd (blocks f xs)) = hd xs"
  by (cases xs) (auto split: list.splits)

lemma blocks_const: "b \<in> set (blocks f xs) \<Longrightarrow> x \<in> set b \<Longrightarrow> f x = f (hd b)"
proof (induction xs arbitrary: b x)
  case Nil
  then show ?case by simp
next
  case (Cons a xs)
  show ?case
  proof (cases "blocks f xs")
    case Nil
    with Cons.prems show ?thesis by simp
  next
    case (Cons c cs)
    have c: "\<And>y. y \<in> set c \<Longrightarrow> f y = f (hd c)"
      using Cons.IH [of c] Cons by simp
    have cs: "\<And>d y. d \<in> set cs \<Longrightarrow> y \<in> set d \<Longrightarrow> f y = f (hd d)"
      using Cons.IH Cons by simp
    show ?thesis
      using Cons.prems Cons c cs by (auto split: if_splits)
  qed
qed

lemma blocks_distinct_adj: "distinct_adj (map (\<lambda>b. f (hd b)) (blocks f xs))"
  by (induction xs) (auto split: list.splits)

lemma blocks_append_block:
  assumes "b \<noteq> []" and "\<forall>x\<in>set b. f x = k" and "rest \<noteq> [] \<Longrightarrow> f (hd rest) \<noteq> k"
  shows "blocks f (b @ rest) = b # blocks f rest"
  using assms(1,2)
proof (induction b)
  case Nil
  then show ?case by simp
next
  case (Cons x b')
  show ?case
  proof (cases b')
    case Nil
    show ?thesis
    proof (cases "blocks f rest")
      case Nil
      then show ?thesis using \<open>b' = []\<close> by simp
    next
      case (Cons c cs)
      then have "rest \<noteq> []" by auto
      then have "hd c = hd rest" "f (hd rest) \<noteq> k"
        using hd_hd_blocks [of rest f] Cons assms(3) by auto
      then show ?thesis using Cons \<open>b' = []\<close> Cons.prems by auto
    qed
  next
    case (Cons y b'')
    then show ?thesis using Cons.IH Cons.prems by auto
  qed
qed

lemma blocks_unique:
  assumes "[] \<notin> set bs"
    and "\<forall>b\<in>set bs. \<forall>x\<in>set b. f x = f (hd b)"
    and "distinct_adj (map (\<lambda>b. f (hd b)) bs)"
  shows "blocks f (concat bs) = bs"
  using assms
proof (induction bs)
  case Nil
  then show ?case by simp
next
  case (Cons b bs)
  have IH: "blocks f (concat bs) = bs"
    using Cons by (auto simp: distinct_adj_Cons)
  have ne: "b \<noteq> []" using Cons.prems by auto
  have const: "\<forall>x\<in>set b. f x = f (hd b)" using Cons.prems by simp
  have diff: "concat bs \<noteq> [] \<Longrightarrow> f (hd (concat bs)) \<noteq> f (hd b)"
    using Cons.prems(1,3) by (cases bs) auto
  show ?case
    using blocks_append_block [OF ne const diff] IH by simp
qed

lemma blocks_keys_sorted:
  "sorted (map f xs) \<Longrightarrow> sorted_wrt (<) (map (\<lambda>b. f (hd b)) (blocks f xs))"
proof (induction xs)
  case Nil
  then show ?case by simp
next
  case (Cons x xs)
  have IH: "sorted_wrt (<) (map (\<lambda>b. f (hd b)) (blocks f xs))"
    using Cons by simp
  have le: "\<And>y. y \<in> set xs \<Longrightarrow> f x \<le> f y" using Cons.prems by auto
  show ?case
  proof (cases "blocks f xs")
    case Nil
    then show ?thesis by simp
  next
    case (Cons c cs)
    have hd_in: "\<And>d. d \<in> set (c # cs) \<Longrightarrow> hd d \<in> set xs"
    proof -
      fix d assume d: "d \<in> set (c # cs)"
      then have "d \<noteq> []" using blocks_nonempty [of f xs] Cons by auto
      then have "hd d \<in> set d" by simp
      then have "hd d \<in> set (concat (blocks f xs))" using d Cons by auto
      then show "hd d \<in> set xs" by simp
    qed
    show ?thesis
    proof (cases "f x = f (hd c)")
      case True
      then show ?thesis using IH Cons by simp
    next
      case False
      have "f x < f (hd c)" using False le [OF hd_in [of c]] by simp
      moreover have "\<forall>d\<in>set cs. f (hd c) < f (hd d)" using IH Cons by simp
      ultimately show ?thesis using IH Cons False by auto
    qed
  qed
qed

lemma set_concat_blocks: "(\<Union>b\<in>set (blocks f xs). set b) = set xs"
  by (metis concat_blocks set_concat)

lemma hd_block_in: "b \<in> set (blocks f xs) \<Longrightarrow> hd b \<in> set xs"
proof -
  assume b: "b \<in> set (blocks f xs)"
  then have "b \<noteq> []" using blocks_nonempty [of f xs] by auto
  then have "hd b \<in> set b" by simp
  then have "hd b \<in> (\<Union>b\<in>set (blocks f xs). set b)" using b by blast
  then show ?thesis by (simp only: set_concat_blocks)
qed

lemma set_block_keys: "set (map (\<lambda>b. f (hd b)) (blocks f xs)) = f ` set xs"
proof (intro equalityI subsetI)
  fix k assume "k \<in> set (map (\<lambda>b. f (hd b)) (blocks f xs))"
  then obtain b where "b \<in> set (blocks f xs)" "k = f (hd b)" by auto
  then show "k \<in> f ` set xs" using hd_block_in [of b f xs] by blast
next
  fix k assume "k \<in> f ` set xs"
  then obtain y where y: "y \<in> set xs" "k = f y" by auto
  then have "y \<in> (\<Union>b\<in>set (blocks f xs). set b)" by (simp only: set_concat_blocks)
  then obtain b where b: "b \<in> set (blocks f xs)" "y \<in> set b" by blast
  then have "f y = f (hd b)" by (rule blocks_const)
  then show "k \<in> set (map (\<lambda>b. f (hd b)) (blocks f xs))" using b y by auto
qed

lemma group_keys_sorted: "sorted_wrt (<) (group_keys f xs)"
  by (simp add: group_keys_def strict_sorted_iff)

lemma set_group_keys [simp]: "set (group_keys f xs) = f ` set xs"
  by (simp add: group_keys_def)

lemma distinct_group_keys [simp]: "distinct (group_keys f xs)"
  by (simp add: group_keys_def)

lemma group_keys_blocks:
  "sorted (map f xs) \<Longrightarrow> group_keys f xs = map (\<lambda>b. f (hd b)) (blocks f xs)"
proof -
  assume s: "sorted (map f xs)"
  have 1: "sorted (group_keys f xs)" "distinct (group_keys f xs)"
    using group_keys_sorted [of f xs] by (simp_all add: strict_sorted_iff)
  have 2: "sorted (map (\<lambda>b. f (hd b)) (blocks f xs))" "distinct (map (\<lambda>b. f (hd b)) (blocks f xs))"
    using blocks_keys_sorted [OF s] by (simp_all only: strict_sorted_iff)
  have 3: "set (group_keys f xs) = set (map (\<lambda>b. f (hd b)) (blocks f xs))"
    by (simp only: set_block_keys set_group_keys)
  show ?thesis
    by (rule sorted_distinct_set_unique [OF 1 2 3])
qed

lemma filter_other_block:
  "\<forall>x\<in>set c. f x = kc \<Longrightarrow> kc \<noteq> k \<Longrightarrow> filter (\<lambda>x. f x = k) c = []"
  by (induction c) auto

lemma filter_own_block:
  "\<forall>x\<in>set c. f x = k \<Longrightarrow> filter (\<lambda>x. f x = k) c = c"
  by (induction c) auto

lemma filter_concat_keyed:
  assumes "distinct (map key bs)" and "\<forall>b\<in>set bs. \<forall>x\<in>set b. f x = key b"
  shows "b \<in> set bs \<Longrightarrow> filter (\<lambda>x. f x = key b) (concat bs) = b"
  using assms
proof (induction bs)
  case Nil
  then show ?case by simp
next
  case (Cons c cs)
  have kc: "\<forall>x\<in>set c. f x = key c" using Cons.prems(3) by simp
  have dcs: "distinct (map key cs)" using Cons.prems(2) by simp
  have kcs: "\<forall>b\<in>set cs. \<forall>x\<in>set b. f x = key b" using Cons.prems(3) by simp
  have notin: "key c \<notin> key ` set cs" using Cons.prems(2) by simp
  show ?case
  proof (cases "b \<in> set cs")
    case True
    then have "key c \<noteq> key b" using notin by blast
    then have "filter (\<lambda>x. f x = key b) c = []"
      using filter_other_block [OF kc] by blast
    then show ?thesis using Cons.IH [OF True dcs kcs] by simp
  next
    case False
    then have bc: "b = c" using Cons.prems(1) by simp
    have "filter (\<lambda>x. f x = key c) (concat cs) = []"
      using kcs notin
    proof (induction cs)
      case Nil
      then show ?case by simp
    next
      case (Cons d ds)
      then have "key d \<noteq> key c" "\<forall>x\<in>set d. f x = key d" by auto
      then have "filter (\<lambda>x. f x = key c) d = []"
        using filter_other_block [of d f "key d" "key c"] by blast
      then show ?case using Cons by simp
    qed
    then show ?thesis using bc filter_own_block [OF kc] by simp
  qed
qed

lemma groupby_sorted:
  assumes "sorted (map f xs)"
  shows "groupby f xs = map (\<lambda>b. (f (hd b), b)) (blocks f xs)"
proof -
  have d: "distinct (map (\<lambda>b. f (hd b)) (blocks f xs))"
    using blocks_keys_sorted [OF assms] by (simp add: strict_sorted_iff)
  have c: "\<forall>b\<in>set (blocks f xs). \<forall>x\<in>set b. f x = f (hd b)"
    using blocks_const by fastforce
  have "\<And>b. b \<in> set (blocks f xs) \<Longrightarrow> filter (\<lambda>x. f x = f (hd b)) xs = b"
    using filter_concat_keyed [OF d c] by simp
  then have "map (\<lambda>b. (f (hd b), filter (\<lambda>x. f x = f (hd b)) xs)) (blocks f xs)
      = map (\<lambda>b. (f (hd b), b)) (blocks f xs)"
    by (intro map_cong) simp_all
  then show ?thesis
    by (simp only: groupby_def group_keys_blocks [OF assms] map_map comp_def)
qed

lemma concat_groupby_sorted:
  "sorted (map f xs) \<Longrightarrow> concat (map snd (groupby f xs)) = xs"
  by (simp add: groupby_sorted comp_def)


section \<open>Run ids within one group\<close>

lemma zip_take_length: "zip xs (take (length xs) ys) = zip xs ys"
proof (induction xs arbitrary: ys)
  case Nil
  then show ?case by simp
next
  case (Cons x xs)
  then show ?case by (cases ys) simp_all
qed

lemma rid_from_Nil [simp]: "rid_from n p [] = []"
  by (simp add: rid_from_def)

lemma rid_from_Cons [simp]:
  "rid_from n p (a # s) =
     (n + of_bool (Some a \<noteq> p)) # rid_from (n + of_bool (Some a \<noteq> p)) (Some a) s"
  by (simp add: rid_from_def)

lemma run_ids_rid_from: "run_ids s = rid_from 0 None s"
  by (simp add: run_ids_def cumsum_def shift1_def rid_from_def zip_take_length)

lemma length_rid_from [simp]: "length (rid_from n p s) = length s"
  by (induction s arbitrary: n p) simp_all

lemma numbered_from:
  "map2 add_run_id g (rid_from n p (map is_full_oos g)) =
     concat (numbered (n + of_bool (g \<noteq> [] \<and> Some (is_full_oos (hd g)) \<noteq> p))
       (blocks is_full_oos g))"
proof (induction g arbitrary: n p)
  case Nil
  then show ?case by simp
next
  case (Cons x xs)
  let ?n = "n + of_bool (Some (is_full_oos x) \<noteq> p)"
  have IH: "map2 add_run_id xs (rid_from ?n (Some (is_full_oos x)) (map is_full_oos xs)) =
     concat (numbered (?n + of_bool (xs \<noteq> [] \<and> Some (is_full_oos (hd xs)) \<noteq> Some (is_full_oos x)))
       (blocks is_full_oos xs))"
    by (rule Cons.IH)
  show ?case
  proof (cases "blocks is_full_oos xs")
    case Nil
    then have "xs = []" by simp
    then show ?thesis by simp
  next
    case (Cons c cs)
    then have ne: "xs \<noteq> []" by auto
    then have hd: "hd c = hd xs" using hd_hd_blocks [of xs is_full_oos] Cons by simp
    show ?thesis
    proof (cases "is_full_oos x = is_full_oos (hd xs)")
      case True
      then show ?thesis using IH Cons ne hd by simp
    next
      case False
      then show ?thesis using IH Cons ne hd by simp
    qed
  qed
qed

lemma group_run_ids_numbered:
  "group_run_ids g = concat (numbered 1 (blocks is_full_oos g))"
proof (cases g)
  case Nil
  then show ?thesis by (simp add: group_run_ids_def)
next
  case (Cons x xs)
  then show ?thesis
    using numbered_from [of g 0 None] by (simp add: group_run_ids_def run_ids_rid_from)
qed

lemma numbered_nonempty: "[] \<notin> set bs \<Longrightarrow> [] \<notin> set (numbered n bs)"
  by (induction bs arbitrary: n) auto

lemma length_numbered [simp]: "length (numbered n bs) = length bs"
  by (induction bs arbitrary: n) auto

lemma numbered_keys:
  "[] \<notin> set bs \<Longrightarrow> map (\<lambda>b. run_id (hd b)) (numbered n bs) = [n..<n + length bs]"
proof (induction bs arbitrary: n)
  case Nil
  then show ?case by simp
next
  case (Cons b bs)
  then have "map (\<lambda>b. run_id (hd b)) (numbered (Suc n) bs) = [Suc n..<Suc n + length bs]"
    by simp
  moreover have "run_id (hd (map (\<lambda>r. add_run_id r n) b)) = n"
    using Cons.prems by (cases b) (simp_all add: add_run_id_def)
  ultimately show ?case by (simp add: upt_rec)
qed

lemma numbered_const:
  "b \<in> set (numbered n bs) \<Longrightarrow> x \<in> set b \<Longrightarrow> run_id x = run_id (hd b)"
proof (induction bs arbitrary: n)
  case Nil
  then show ?case by simp
next
  case (Cons c cs)
  show ?case
  proof (cases "b = map (\<lambda>r. add_run_id r n) c")
    case True
    then have "run_id x = n" using Cons.prems(2) by (auto simp: add_run_id_def)
    moreover have "b \<noteq> []" using Cons.prems(2) by auto
    then have "run_id (hd b) = n" using True by (cases c) (simp_all add: add_run_id_def)
    ultimately show ?thesis by simp
  next
    case False
    then show ?thesis using Cons by simp
  qed
qed

lemma distinct_imp_distinct_adj: "distinct xs \<Longrightarrow> distinct_adj xs"
  by (induction xs) (auto simp: distinct_adj_Cons)

lemma numbered_ids_ge: "x \<in> set (concat (numbered n bs)) \<Longrightarrow> n \<le> run_id x"
proof (induction bs arbitrary: n)
  case Nil
  then show ?case by simp
next
  case (Cons b bs)
  then consider "x \<in> set (map (\<lambda>r. add_run_id r n) b)" | "x \<in> set (concat (numbered (Suc n) bs))"
    by auto
  then show ?case
  proof cases
    case 1
    then show ?thesis by (auto simp: add_run_id_def)
  next
    case 2
    then have "Suc n \<le> run_id x" by (rule Cons.IH)
    then show ?thesis by simp
  qed
qed

lemma sorted_numbered: "sorted (map run_id (concat (numbered n bs)))"
proof (induction bs arbitrary: n)
  case Nil
  then show ?case by simp
next
  case (Cons b bs)
  have 1: "map run_id (map (\<lambda>r. add_run_id r n) b) = replicate (length b) n"
    by (induction b) (simp_all add: add_run_id_def)
  have 2: "\<forall>y\<in>set (concat (numbered (Suc n) bs)). n \<le> run_id y"
  proof
    fix y assume "y \<in> set (concat (numbered (Suc n) bs))"
    then have "Suc n \<le> run_id y" by (rule numbered_ids_ge)
    then show "n \<le> run_id y" by simp
  qed
  have "map run_id (concat (numbered n (b # bs))) =
      replicate (length b) n @ map run_id (concat (numbered (Suc n) bs))"
    using 1 by simp
  moreover have "sorted (replicate (length b) n @ map run_id (concat (numbered (Suc n) bs)))"
    unfolding sorted_append using Cons.IH [of "Suc n"] 2 by (auto simp: sorted_replicate)
  ultimately show ?case by (simp only:)
qed

lemma groupby_run_id_group:
  "groupby run_id (group_run_ids g) =
     map (\<lambda>b. (run_id (hd b), b)) (numbered 1 (blocks is_full_oos g))"
proof -
  let ?bs = "numbered 1 (blocks is_full_oos g)"
  have ne: "[] \<notin> set ?bs" by (simp add: numbered_nonempty blocks_nonempty)
  have keys: "map (\<lambda>b. run_id (hd b)) ?bs = [1..<1 + length (blocks is_full_oos g)]"
    by (rule numbered_keys) (rule blocks_nonempty)
  have const: "\<forall>b\<in>set ?bs. \<forall>x\<in>set b. run_id x = run_id (hd b)"
    using numbered_const by blast
  have "distinct (map (\<lambda>b. run_id (hd b)) ?bs)" by (simp only: keys distinct_upt)
  then have "distinct_adj (map (\<lambda>b. run_id (hd b)) ?bs)" by (rule distinct_imp_distinct_adj)
  then have blocks: "blocks run_id (concat ?bs) = ?bs"
    by (rule blocks_unique [OF ne const])
  have "sorted (map run_id (concat ?bs))"
    by (rule sorted_numbered)
  then show ?thesis
    by (simp only: group_run_ids_numbered groupby_sorted blocks)
qed


section \<open>From the frame to one group\<close>

lemma add_run_id_sel [simp]:
  "group_cols (add_run_id r i) = group_cols r"
  "dt (add_run_id r i) = dt r"
  "is_full_oos (add_run_id r i) = is_full_oos r"
  "run_id (add_run_id r i) = i"
  "run_cols (add_run_id r i) = (store_name r, e_code r, i)"
  by (simp_all add: add_run_id_def group_cols_def run_cols_def)

lemma in_group_run_ids:
  "x \<in> set (group_run_ids g) \<Longrightarrow> \<exists>r\<in>set g. \<exists>i. x = add_run_id r i"
  unfolding group_run_ids_def by (auto dest: set_zip_leftD)

lemma filter_concat_map_keyed:
  assumes "distinct ks" and "\<forall>k'\<in>set ks. \<forall>x\<in>set (G k'). f x = k'"
  shows "filter (\<lambda>x. f x = k) (concat (map G ks)) = (if k \<in> set ks then G k else [])"
  using assms
proof (induction ks)
  case Nil
  then show ?case by simp
next
  case (Cons a ks)
  have IH: "filter (\<lambda>x. f x = k) (concat (map G ks)) = (if k \<in> set ks then G k else [])"
    using Cons by simp
  have a: "\<forall>x\<in>set (G a). f x = a" using Cons.prems by simp
  show ?case
  proof (cases "k = a")
    case True
    then have "k \<notin> set ks" using Cons.prems by simp
    then show ?thesis using IH True filter_own_block [OF a] by simp
  next
    case False
    then have "a \<noteq> k" by simp
    then have "filter (\<lambda>x. f x = k) (G a) = []"
      by (rule filter_other_block [OF a])
    then show ?thesis using IH False by simp
  qed
qed

lemma length_group_run_ids [simp]: "length (group_run_ids g) = length g"
  by (simp add: group_run_ids_def run_ids_rid_from)

lemma group_run_ids_Nil [simp]: "group_run_ids [] = []"
  by (simp add: group_run_ids_def)

lemma filter_assign_run_id:
  "filter (\<lambda>r. group_cols r = k) (assign_run_id df) =
     group_run_ids (filter (\<lambda>r. group_cols r = k) df)"
proof -
  let ?G = "\<lambda>k. group_run_ids (filter (\<lambda>r. group_cols r = k) df)"
  have eq: "assign_run_id df = concat (map ?G (group_keys group_cols df))"
    by (simp add: assign_run_id_def groupby_def comp_def)
  have keyed: "\<forall>k'\<in>set (group_keys group_cols df). \<forall>x\<in>set (?G k'). group_cols x = k'"
    by (auto dest!: in_group_run_ids)
  have "filter (\<lambda>r. group_cols r = k) (assign_run_id df) =
      (if k \<in> set (group_keys group_cols df) then ?G k else [])"
    unfolding eq by (rule filter_concat_map_keyed [OF distinct_group_keys keyed])
  moreover have "k \<notin> set (group_keys group_cols df) \<Longrightarrow> filter (\<lambda>r. group_cols r = k) df = []"
    by (auto simp: filter_empty_conv)
  ultimately show ?thesis by (cases "k \<in> set (group_keys group_cols df)") simp_all
qed

lemma run_group_agg_run [simp]: "run_group (agg_run ((s, e, i), g)) = (s, e)"
  by (simp add: run_group_def agg_run_def)

lemma group_run_keys:
  "filter (\<lambda>k3. (fst k3, fst (snd k3)) = k) (group_keys run_cols df) =
     map (\<lambda>i. (fst k, snd k, i)) (group_keys run_id (filter (\<lambda>r. group_cols r = k) df))"
proof (rule sorted_distinct_set_unique)
  show "sorted (filter (\<lambda>k3. (fst k3, fst (snd k3)) = k) (group_keys run_cols df))"
    using group_keys_sorted [of run_cols df] by (simp add: strict_sorted_iff sorted_wrt_filter)
  show "distinct (filter (\<lambda>k3. (fst k3, fst (snd k3)) = k) (group_keys run_cols df))"
    by simp
  have "sorted_wrt (<) (group_keys run_id (filter (\<lambda>r. group_cols r = k) df))"
    by (rule group_keys_sorted)
  then have "sorted_wrt (<) (map (\<lambda>i. (fst k, snd k, i)) (group_keys run_id (filter (\<lambda>r. group_cols r = k) df)))"
    by (simp add: sorted_wrt_map less_prod_def)
  then show "sorted (map (\<lambda>i. (fst k, snd k, i)) (group_keys run_id (filter (\<lambda>r. group_cols r = k) df)))"
    "distinct (map (\<lambda>i. (fst k, snd k, i)) (group_keys run_id (filter (\<lambda>r. group_cols r = k) df)))"
    by (simp_all only: strict_sorted_iff)
  show "set (filter (\<lambda>k3. (fst k3, fst (snd k3)) = k) (group_keys run_cols df)) =
    set (map (\<lambda>i. (fst k, snd k, i)) (group_keys run_id (filter (\<lambda>r. group_cols r = k) df)))"
    by (auto simp: run_cols_def group_cols_def image_iff)
qed

lemma run_group_agg_run': "run_group (agg_run (k3, g)) = (fst k3, fst (snd k3))"
  by (cases k3) (simp add: run_group_def agg_run_def)

lemma filter_run_cols:
  "filter (\<lambda>r. run_cols r = (fst k, snd k, i)) df =
     filter (\<lambda>r. run_id r = i) (filter (\<lambda>r. group_cols r = k) df)"
  by (cases k) (auto simp: run_cols_def group_cols_def intro: filter_cong)

lemma filter_make_runs:
  "filter (\<lambda>r. run_group r = k) (make_runs df) =
     map (\<lambda>(i, b). agg_run ((fst k, snd k, i), b))
       (groupby run_id (filter (\<lambda>r. group_cols r = k) df))"
proof -
  let ?h = "\<lambda>k3. agg_run (k3, filter (\<lambda>r. run_cols r = k3) df)"
  let ?gk = "filter (\<lambda>r. group_cols r = k) df"
  have "make_runs df = map ?h (group_keys run_cols df)"
    by (simp add: make_runs_def groupby_def comp_def)
  then have "filter (\<lambda>r. run_group r = k) (make_runs df) =
      map ?h (filter (\<lambda>k3. (fst k3, fst (snd k3)) = k) (group_keys run_cols df))"
    by (simp add: filter_map comp_def run_group_agg_run')
  also have "\<dots> = map ?h (map (\<lambda>i. (fst k, snd k, i)) (group_keys run_id ?gk))"
    by (simp only: group_run_keys)
  also have "\<dots> = map (\<lambda>i. agg_run ((fst k, snd k, i), filter (\<lambda>r. run_id r = i) ?gk))
      (group_keys run_id ?gk)"
    by (simp only: map_map comp_def filter_run_cols)
  also have "\<dots> = map (\<lambda>(i, b). agg_run ((fst k, snd k, i), b)) (groupby run_id ?gk)"
    by (simp add: groupby_def comp_def)
  finally show ?thesis .
qed

lemma agg_run_block:
  "b \<noteq> [] \<Longrightarrow> agg_run ((fst k, snd k, n), map (\<lambda>r. add_run_id r n) b) = block_run k n b"
proof -
  assume ne: "b \<noteq> []"
  have "map dt (map (\<lambda>r. add_run_id r n) b) = map dt b" by simp
  moreover have "is_full_oos (hd (map (\<lambda>r. add_run_id r n) b)) = is_full_oos (hd b)"
    using ne by (simp add: hd_map)
  ultimately show ?thesis
    by (simp only: agg_run_def block_run_def prod.case length_map)
qed

lemma agg_numbered:
  "[] \<notin> set bs \<Longrightarrow>
     map (\<lambda>b. agg_run ((fst k, snd k, run_id (hd b)), b)) (numbered n bs) = block_runs k n bs"
proof (induction bs arbitrary: n)
  case Nil
  then show ?case by simp
next
  case (Cons b bs)
  then have ne: "b \<noteq> []" by auto
  then have "run_id (hd (map (\<lambda>r. add_run_id r n) b)) = n"
    by (simp add: hd_map)
  then show ?case using Cons ne by (simp add: agg_run_block)
qed

lemma group_runs:
  "filter (\<lambda>r. run_group r = k) (make_runs (assign_run_id df)) =
     block_runs k 1 (blocks is_full_oos (filter (\<lambda>r. group_cols r = k) df))"
proof -
  let ?g = "filter (\<lambda>r. group_cols r = k) df"
  have "filter (\<lambda>r. run_group r = k) (make_runs (assign_run_id df)) =
      map (\<lambda>(i, b). agg_run ((fst k, snd k, i), b)) (groupby run_id (group_run_ids ?g))"
    by (simp only: filter_make_runs filter_assign_run_id)
  also have "\<dots> = map (\<lambda>b. agg_run ((fst k, snd k, run_id (hd b)), b))
      (numbered 1 (blocks is_full_oos ?g))"
    by (simp add: groupby_run_id_group comp_def)
  also have "\<dots> = block_runs k 1 (blocks is_full_oos ?g)"
    by (rule agg_numbered) (rule blocks_nonempty)
  finally show ?thesis .
qed


section \<open>The runs of one group\<close>

lemma block_runs_flags:
  "map run_is_full_oos (block_runs k n bs) = map (\<lambda>b. is_full_oos (hd b)) bs"
  by (induction bs arbitrary: n) (simp_all add: block_run_def)

lemma block_runs_ids: "map run_run_id (block_runs k n bs) = [n..<n + length bs]"
  by (induction bs arbitrary: n) (simp_all add: block_run_def upt_rec)

lemma block_runs_days: "map days (block_runs k n bs) = map length bs"
  by (induction bs arbitrary: n) (simp_all add: block_run_def)

lemma block_runs_group: "r \<in> set (block_runs k n bs) \<Longrightarrow> run_group r = k"
  by (induction bs arbitrary: n) (auto simp: block_run_def run_group_def)

lemma length_block_runs [simp]: "length (block_runs k n bs) = length bs"
  by (induction bs arbitrary: n) simp_all

lemma block_runs_alternate:
  "distinct_adj (map run_is_full_oos (block_runs k n (blocks is_full_oos g)))"
  by (simp only: block_runs_flags blocks_distinct_adj)

lemma sum_length_blocks: "sum_list (map length (blocks f xs)) = length xs"
  by (metis concat_blocks length_concat)

lemma filter_block_runs:
  "map days (filter run_is_full_oos (block_runs k n bs)) =
     map length (filter (\<lambda>b. is_full_oos (hd b)) bs)"
  by (induction bs arbitrary: n) (simp_all add: block_run_def)

lemma true_blocks_length:
  "sum_list (map length (filter (\<lambda>b. f (hd b)) (blocks f xs))) = length (filter f xs)"
proof -
  have "\<And>b. b \<in> set (blocks f xs) \<Longrightarrow> length (filter f b) = (if f (hd b) then length b else 0)"
  proof -
    fix b assume b: "b \<in> set (blocks f xs)"
    then have c: "\<forall>x\<in>set b. f x = f (hd b)" using blocks_const [of b f xs] by blast
    show "length (filter f b) = (if f (hd b) then length b else 0)"
    proof (cases "f (hd b)")
      case True
      then have "filter f b = b" using c by simp
      then show ?thesis using True by simp
    next
      case False
      then have "filter f b = []" using c by simp
      then show ?thesis using False by simp
    qed
  qed
  then have "map (\<lambda>b. length (filter f b)) (blocks f xs) =
      map (\<lambda>b. if f (hd b) then length b else 0) (blocks f xs)"
    by (intro map_cong) simp_all
  moreover have "sum_list (map (\<lambda>b. if f (hd b) then length b else 0) bs) =
      sum_list (map length (filter (\<lambda>b. f (hd b)) bs))" for bs :: "'a list list"
    by (induction bs) simp_all
  moreover have "length (filter f (concat bs)) = sum_list (map (\<lambda>b. length (filter f b)) bs)"
    for bs :: "'a list list"
    by (induction bs) simp_all
  ultimately show ?thesis
    by (metis concat_blocks)
qed

lemma group_true_days:
  "sum_list (map days (filter run_is_full_oos (block_runs k n (blocks is_full_oos g)))) =
     length (filter is_full_oos g)"
  by (simp only: filter_block_runs true_blocks_length)

section \<open>The outputs of \<^verbatim>\<open>calc_full_oos_streaks\<close>, group by group\<close>

lemma calc_df:
  "fst (calc_full_oos_streaks df thr) =
     assign_run_id (sort_values sort_cols (map (add_is_full_oos thr) df))"
  by (simp add: calc_full_oos_streaks_def Let_def)

lemma calc_runs:
  "fst (snd (calc_full_oos_streaks df thr)) =
     make_runs (assign_run_id (sort_values sort_cols (map (add_is_full_oos thr) df)))"
  by (simp add: calc_full_oos_streaks_def Let_def)

lemma calc_summary:
  "snd (snd (calc_full_oos_streaks df thr)) =
     map (merge_total (total_full_days (fst (calc_full_oos_streaks df thr))))
       (max_streaks (fst (snd (calc_full_oos_streaks df thr))))"
  by (simp add: calc_full_oos_streaks_def Let_def)

lemma same_group_le:
  "group_cols x = group_cols y \<Longrightarrow> sort_cols x \<le> sort_cols y \<Longrightarrow> dt x \<le> dt y"
  by (simp add: group_cols_def sort_cols_def less_eq_prod_def)

lemma sorted_group_dt:
  "sorted (map dt (filter (\<lambda>r. group_cols r = k) (sort_values sort_cols xs)))"
proof -
  let ?g = "filter (\<lambda>r. group_cols r = k) (sort_values sort_cols xs)"
  have "sorted (map sort_cols ?g)"
    unfolding sort_values_def by (rule sorted_filter) simp
  then have "sorted_wrt (\<lambda>x y. sort_cols x \<le> sort_cols y) ?g"
    by (simp add: sorted_map)
  moreover have "\<And>x y. x \<in> set ?g \<Longrightarrow> y \<in> set ?g \<Longrightarrow> sort_cols x \<le> sort_cols y \<Longrightarrow> dt x \<le> dt y"
  proof -
    fix x y assume "x \<in> set ?g" "y \<in> set ?g" and le: "sort_cols x \<le> sort_cols y"
    then have "group_cols x = group_cols y" by simp
    then show "dt x \<le> dt y" using le by (rule same_group_le)
  qed
  ultimately have "sorted_wrt (\<lambda>x y. dt x \<le> dt y) ?g"
    by (rule sorted_wrt_mono_rel [rotated])
  then show ?thesis by (simp add: sorted_map)
qed

lemma map2_add_run_id_sel:
  assumes "length ids = length g"
  shows "map dt (map2 add_run_id g ids) = map dt g"
    and "map is_full_oos (map2 add_run_id g ids) = map is_full_oos g"
    and "map run_id (map2 add_run_id g ids) = ids"
  using assms by (induction g ids rule: list_induct2') simp_all

lemma group_run_ids_sel:
  "map dt (group_run_ids g) = map dt g"
  "map is_full_oos (group_run_ids g) = map is_full_oos g"
  "map run_id (group_run_ids g) = run_ids (map is_full_oos g)"
  unfolding group_run_ids_def run_ids_rid_from
  by (rule map2_add_run_id_sel, simp)+

lemma rid_from_step:
  "Suc i < length s \<Longrightarrow>
     rid_from n p s ! Suc i = rid_from n p s ! i + of_bool (s ! Suc i \<noteq> s ! i)"
proof (induction s arbitrary: i n p)
  case Nil
  then show ?case by simp
next
  case (Cons a s)
  show ?case
  proof (cases i)
    case 0
    then show ?thesis using Cons.prems by (cases s) auto
  next
    case (Suc j)
    then show ?thesis using Cons by simp
  qed
qed

lemma sorted_Min_hd: "sorted xs \<Longrightarrow> xs \<noteq> [] \<Longrightarrow> Min (set xs) = hd xs"
  by (cases xs) (auto intro: Min_eqI)

lemma sorted_le_last: "sorted xs \<Longrightarrow> y \<in> set xs \<Longrightarrow> y \<le> last xs"
  by (induction xs) auto

lemma sorted_Max_last: "sorted xs \<Longrightarrow> xs \<noteq> [] \<Longrightarrow> Max (set xs) = last xs"
  by (intro Max_eqI) (simp_all add: sorted_le_last)

lemma sorted_blocks:
  "sorted (map h (concat bs)) \<Longrightarrow> b \<in> set bs \<Longrightarrow> sorted (map h b)"
  by (induction bs) (auto simp: sorted_append)

lemma sorted_block_hds:
  "sorted (map h (concat bs)) \<Longrightarrow> [] \<notin> set bs \<Longrightarrow> sorted (map (\<lambda>b. h (hd b)) bs)"
proof (induction bs)
  case Nil
  then show ?case by simp
next
  case (Cons b bs)
  have "\<And>c. c \<in> set bs \<Longrightarrow> h (hd b) \<le> h (hd c)"
  proof -
    fix c assume c: "c \<in> set bs"
    then have "c \<noteq> []" "b \<noteq> []" using Cons.prems(2) by auto
    then have "hd c \<in> set c" "hd b \<in> set b" by simp_all
    then have "hd c \<in> set (concat bs)" "hd b \<in> set b" using c by auto
    then show "h (hd b) \<le> h (hd c)" using Cons.prems(1) by (auto simp: sorted_append)
  qed
  then show ?case using Cons by (auto simp: sorted_append)
qed

section \<open>The member records of a run\<close>

lemma group_df:
  "filter (\<lambda>r. group_cols r = k) (fst (calc_full_oos_streaks df thr)) =
     concat (numbered 1 (blocks is_full_oos
       (filter (\<lambda>r. group_cols r = k) (sort_values sort_cols (map (add_is_full_oos thr) df)))))"
  by (simp only: calc_df filter_assign_run_id group_run_ids_numbered)

lemma group_runs_calc:
  "filter (\<lambda>r. run_group r = k) (fst (snd (calc_full_oos_streaks df thr))) =
     block_runs k 1 (blocks is_full_oos
       (filter (\<lambda>r. group_cols r = k) (sort_values sort_cols (map (add_is_full_oos thr) df))))"
  by (simp only: calc_runs group_runs)

lemma numbered_nth:
  "j < length bs \<Longrightarrow> numbered n bs ! j = map (\<lambda>r. add_run_id r (n + j)) (bs ! j)"
proof (induction bs arbitrary: n j)
  case Nil
  then show ?case by simp
next
  case (Cons b bs)
  then show ?case by (cases j) simp_all
qed

lemma block_runs_nth:
  "j < length bs \<Longrightarrow> block_runs k n bs ! j = block_run k (n + j) (bs ! j)"
proof (induction bs arbitrary: n j)
  case Nil
  then show ?case by simp
next
  case (Cons b bs)
  then show ?case by (cases j) simp_all
qed

lemma filter_numbered:
  assumes "[] \<notin> set bs" and "j < length bs"
  shows "filter (\<lambda>x. run_id x = n + j) (concat (numbered n bs)) = numbered n bs ! j"
proof -
  let ?nb = "numbered n bs"
  let ?key = "\<lambda>b. run_id (hd b)"
  have keys: "map ?key ?nb = [n..<n + length bs]"
    using assms(1) by (rule numbered_keys)
  then have d: "distinct (map ?key ?nb)" by (simp only: distinct_upt)
  have c: "\<forall>b\<in>set ?nb. \<forall>x\<in>set b. run_id x = ?key b"
    using numbered_const by blast
  have j: "j < length ?nb" using assms(2) by simp
  then have mem: "?nb ! j \<in> set ?nb" by (rule nth_mem)
  have "?key (?nb ! j) = map ?key ?nb ! j" using j by simp
  also have "\<dots> = n + j" using assms(2) by (simp only: keys nth_upt add_less_cancel_left)
  finally have k: "?key (?nb ! j) = n + j" .
  show ?thesis
    using filter_concat_keyed [OF d c mem] by (simp only: k)
qed

lemma members_block_runs:
  assumes "[] \<notin> set bs"
  shows "map (\<lambda>r. filter (\<lambda>x. run_id x = run_run_id r) (concat (numbered n bs)))
           (block_runs k n bs) = numbered n bs"
proof (rule nth_equalityI)
  show "length (map (\<lambda>r. filter (\<lambda>x. run_id x = run_run_id r) (concat (numbered n bs)))
           (block_runs k n bs)) = length (numbered n bs)" by simp
next
  fix j assume "j < length (map (\<lambda>r. filter (\<lambda>x. run_id x = run_run_id r) (concat (numbered n bs)))
           (block_runs k n bs))"
  then have j: "j < length bs" by simp
  then have "run_run_id (block_runs k n bs ! j) = n + j"
    by (simp add: block_runs_nth block_run_def)
  then show "map (\<lambda>r. filter (\<lambda>x. run_id x = run_run_id r) (concat (numbered n bs)))
           (block_runs k n bs) ! j = numbered n bs ! j"
    using j filter_numbered [OF assms j, of n] by simp
qed

lemma run_members_group:
  "run_group r = k \<Longrightarrow>
     run_members df r = filter (\<lambda>x. run_id x = run_run_id r) (filter (\<lambda>x. group_cols x = k) df)"
  unfolding run_members_def run_group_def
  using filter_run_cols [of k "run_run_id r" df] by auto

lemma block_run_props:
  assumes srt: "sorted (map dt (concat bs))"
    and ne: "[] \<notin> set bs"
    and const: "\<forall>b\<in>set bs. \<forall>x\<in>set b. is_full_oos x = is_full_oos (hd b)"
    and j: "j < length bs"
  shows "numbered n bs ! j \<noteq> []
    \<and> days (block_runs k n bs ! j) = length (numbered n bs ! j)
    \<and> (\<forall>x\<in>set (numbered n bs ! j). is_full_oos x = run_is_full_oos (block_runs k n bs ! j))
    \<and> start_dt (block_runs k n bs ! j) = dt (hd (numbered n bs ! j))
    \<and> end_dt (block_runs k n bs ! j) = dt (last (numbered n bs ! j))"
proof -
  let ?b = "bs ! j"
  have mem: "?b \<in> set bs" using j by (rule nth_mem)
  then have bne: "?b \<noteq> []" using ne by auto
  have m: "numbered n bs ! j = map (\<lambda>r. add_run_id r (n + j)) ?b"
    using j by (rule numbered_nth)
  have r: "block_runs k n bs ! j = block_run k (n + j) ?b"
    using j by (rule block_runs_nth)
  have sb: "sorted (map dt ?b)" using srt mem by (rule sorted_blocks)
  have mne: "map dt ?b \<noteq> []" using bne by simp
  have 1: "numbered n bs ! j \<noteq> []" using bne m by simp
  have 2: "days (block_runs k n bs ! j) = length (numbered n bs ! j)"
    by (simp add: m r block_run_def)
  have 3: "\<forall>x\<in>set (numbered n bs ! j). is_full_oos x = run_is_full_oos (block_runs k n bs ! j)"
    using const mem by (auto simp: m r block_run_def)
  have "start_dt (block_runs k n bs ! j) = hd (map dt ?b)"
    using sorted_Min_hd [OF sb mne] by (simp add: r block_run_def)
  then have 4: "start_dt (block_runs k n bs ! j) = dt (hd (numbered n bs ! j))"
    using bne by (simp add: m hd_map)
  have "end_dt (block_runs k n bs ! j) = last (map dt ?b)"
    using sorted_Max_last [OF sb mne] by (simp add: r block_run_def)
  then have 5: "end_dt (block_runs k n bs ! j) = dt (last (numbered n bs ! j))"
    using bne by (simp add: m last_map)
  show ?thesis using 1 2 3 4 5 by blast
qed


lemma group_partition:
  "sorted (map dt (filter (\<lambda>x. group_cols x = k) (fst (calc_full_oos_streaks df thr))))
   \<and> concat (map (run_members (fst (calc_full_oos_streaks df thr)))
        (filter (\<lambda>r. run_group r = k) (fst (snd (calc_full_oos_streaks df thr)))))
      = filter (\<lambda>x. group_cols x = k) (fst (calc_full_oos_streaks df thr))
   \<and> distinct (map run_run_id
        (filter (\<lambda>r. run_group r = k) (fst (snd (calc_full_oos_streaks df thr)))))
   \<and> (\<forall>r\<in>set (filter (\<lambda>r. run_group r = k) (fst (snd (calc_full_oos_streaks df thr)))).
        run_members (fst (calc_full_oos_streaks df thr)) r \<noteq> []
        \<and> days r = length (run_members (fst (calc_full_oos_streaks df thr)) r)
        \<and> (\<forall>x\<in>set (run_members (fst (calc_full_oos_streaks df thr)) r).
              is_full_oos x = run_is_full_oos r)
        \<and> start_dt r = dt (hd (run_members (fst (calc_full_oos_streaks df thr)) r))
        \<and> end_dt r = dt (last (run_members (fst (calc_full_oos_streaks df thr)) r)))
   \<and> distinct_adj (map run_is_full_oos
        (filter (\<lambda>r. run_group r = k) (fst (snd (calc_full_oos_streaks df thr)))))"
proof -
  let ?daily = "fst (calc_full_oos_streaks df thr)"
  let ?runs = "fst (snd (calc_full_oos_streaks df thr))"
  let ?g2 = "filter (\<lambda>r. group_cols r = k) (sort_values sort_cols (map (add_is_full_oos thr) df))"
  let ?bs = "blocks is_full_oos ?g2"
  let ?g = "filter (\<lambda>x. group_cols x = k) ?daily"
  let ?rs = "filter (\<lambda>r. run_group r = k) ?runs"
  have g: "?g = concat (numbered 1 ?bs)" by (rule group_df)
  have rs: "?rs = block_runs k 1 ?bs" by (rule group_runs_calc)
  have ne: "[] \<notin> set ?bs" by (rule blocks_nonempty)
  have const: "\<forall>b\<in>set ?bs. \<forall>x\<in>set b. is_full_oos x = is_full_oos (hd b)"
    using blocks_const by fastforce
  have srt2: "sorted (map dt (concat ?bs))"
    by (simp only: concat_blocks sorted_group_dt)
  have "?g = group_run_ids ?g2" by (simp only: calc_df filter_assign_run_id)
  then have "map dt ?g = map dt ?g2" by (simp only: group_run_ids_sel)
  then have 1: "sorted (map dt ?g)" by (simp only: sorted_group_dt)
  have mem: "\<And>r. r \<in> set ?rs \<Longrightarrow>
      run_members ?daily r = filter (\<lambda>x. run_id x = run_run_id r) (concat (numbered 1 ?bs))"
  proof -
    fix r assume "r \<in> set ?rs"
    then have "run_group r = k" by simp
    then show "run_members ?daily r = filter (\<lambda>x. run_id x = run_run_id r) (concat (numbered 1 ?bs))"
      by (simp only: run_members_group g)
  qed
  then have "map (run_members ?daily) ?rs =
      map (\<lambda>r. filter (\<lambda>x. run_id x = run_run_id r) (concat (numbered 1 ?bs))) ?rs"
    by (intro map_cong) simp_all
  also have "\<dots> = numbered 1 ?bs"
    unfolding rs by (rule members_block_runs [OF ne])
  finally have members: "map (run_members ?daily) ?rs = numbered 1 ?bs" .
  then have 2: "concat (map (run_members ?daily) ?rs) = ?g" by (simp only: g)
  have 3: "distinct (map run_run_id ?rs)" by (simp only: rs block_runs_ids distinct_upt)
  have 4: "\<forall>r\<in>set ?rs. run_members ?daily r \<noteq> []
        \<and> days r = length (run_members ?daily r)
        \<and> (\<forall>x\<in>set (run_members ?daily r). is_full_oos x = run_is_full_oos r)
        \<and> start_dt r = dt (hd (run_members ?daily r))
        \<and> end_dt r = dt (last (run_members ?daily r))"
  proof
    fix r assume "r \<in> set ?rs"
    then obtain j where j: "j < length ?rs" and r: "r = ?rs ! j"
      by (metis in_set_conv_nth)
    have jb: "j < length ?bs" using j by (simp only: rs length_block_runs)
    have m: "run_members ?daily r = numbered 1 ?bs ! j"
      using j r members by (metis nth_map)
    have r': "r = block_runs k 1 ?bs ! j" using r by (simp only: rs)
    show "run_members ?daily r \<noteq> []
        \<and> days r = length (run_members ?daily r)
        \<and> (\<forall>x\<in>set (run_members ?daily r). is_full_oos x = run_is_full_oos r)
        \<and> start_dt r = dt (hd (run_members ?daily r))
        \<and> end_dt r = dt (last (run_members ?daily r))"
      by (rule block_run_props [OF srt2 ne const jb, of 1 k,
            unfolded r' [symmetric] m [symmetric]])
  qed
  have 5: "distinct_adj (map run_is_full_oos ?rs)"
    by (simp only: rs block_runs_alternate)
  show ?thesis using 1 2 3 4 5 by blast
qed

lemma group_df_run_ids:
  "filter (\<lambda>r. group_cols r = k) (fst (calc_full_oos_streaks df thr)) =
     group_run_ids (filter (\<lambda>r. group_cols r = k)
       (sort_values sort_cols (map (add_is_full_oos thr) df)))"
  by (simp only: calc_df filter_assign_run_id)

lemma group_run_id_step:
  assumes "Suc i < length (group_run_ids g)"
  shows "run_id (group_run_ids g ! Suc i) =
     run_id (group_run_ids g ! i)
       + of_bool (is_full_oos (group_run_ids g ! Suc i) \<noteq> is_full_oos (group_run_ids g ! i))"
proof -
  let ?h = "group_run_ids g"
  let ?s = "map is_full_oos g"
  have len: "Suc i < length ?s" "i < length ?h" "Suc i < length ?h" using assms by simp_all
  have ids: "map run_id ?h = rid_from 0 None ?s"
    by (simp only: group_run_ids_sel run_ids_rid_from)
  have fl: "map is_full_oos ?h = ?s" by (simp only: group_run_ids_sel)
  have "run_id (?h ! Suc i) = map run_id ?h ! Suc i" "run_id (?h ! i) = map run_id ?h ! i"
    "is_full_oos (?h ! Suc i) = map is_full_oos ?h ! Suc i"
    "is_full_oos (?h ! i) = map is_full_oos ?h ! i"
    using len by simp_all
  then show ?thesis
    using rid_from_step [OF len(1), of 0 None] by (simp only: ids fl)
qed

lemma run_days_members:
  assumes "r \<in> set (fst (snd (calc_full_oos_streaks df thr)))"
  shows "days r = length (run_members (fst (calc_full_oos_streaks df thr)) r)"
proof -
  have "r \<in> set (filter (\<lambda>x. run_group x = run_group r) (fst (snd (calc_full_oos_streaks df thr))))"
    using assms by simp
  then show ?thesis
    using group_partition [of "run_group r" df thr] by blast
qed

section \<open>The examples, evaluated\<close>

lemma calc_six_days_example:
  "calc_full_oos_streaks six_days_example (999 / 1000) =
     (map2 add_run_id (map (add_is_full_oos (999 / 1000)) six_days_example) [1, 1, 2, 3, 3, 3],
      [\<lparr>run_store_name = ''S1'', run_e_code = ''P1'', run_run_id = 1,
         run_is_full_oos = True, start_dt = 1, end_dt = 2, days = 2\<rparr>,
       \<lparr>run_store_name = ''S1'', run_e_code = ''P1'', run_run_id = 2,
         run_is_full_oos = False, start_dt = 3, end_dt = 3, days = 1\<rparr>,
       \<lparr>run_store_name = ''S1'', run_e_code = ''P1'', run_run_id = 3,
         run_is_full_oos = True, start_dt = 4, end_dt = 6, days = 3\<rparr>],
      [\<lparr>sum_store_name = ''S1'', sum_e_code = ''P1'', max_streak_start_dt = 4,
         max_streak_end_dt = 6, max_full_oos_streak_days = 3,
         total_full_oos_days = 5\<rparr>])"
  by code_simp


lemma calc_gap_example:
  "calc_full_oos_streaks gap_example (999 / 1000) =
     (map2 add_run_id (map (add_is_full_oos (999 / 1000)) gap_example) [1, 1, 1, 1],
      [\<lparr>run_store_name = ''S1'', run_e_code = ''P1'', run_run_id = 1,
         run_is_full_oos = True, start_dt = 1, end_dt = 5, days = 4\<rparr>],
      [\<lparr>sum_store_name = ''S1'', sum_e_code = ''P1'', max_streak_start_dt = 1,
         max_streak_end_dt = 5, max_full_oos_streak_days = 4,
         total_full_oos_days = 4\<rparr>])"
  by code_simp

lemma gap_group_rows:
  "map (\<lambda>x. (dt x, is_full_oos x, run_id x))
     (filter (\<lambda>x. group_cols x = (''S1'', ''P1''))
       (fst (calc_full_oos_streaks gap_example (999 / 1000))))
     = [(1, True, 1), (2, True, 1), (4, True, 1), (5, True, 1)]"
  by code_simp

lemma gap_example_flags:
  "map dt gap_example = [1, 2, 4, 5]"
  "map (\<lambda>r. full_oos_flag (999 / 1000) (oos_rate r)) gap_example = [True, True, True, True]"
  "map group_cols gap_example = replicate 4 (''S1'', ''P1'')"
  by code_simp+

lemma six_days_example_outputs:
  "map max_full_oos_streak_days (snd (snd (calc_full_oos_streaks six_days_example (999 / 1000)))) = [3]"
  "map total_full_oos_days (snd (snd (calc_full_oos_streaks six_days_example (999 / 1000)))) = [5]"
  "map (\<lambda>r. (run_is_full_oos r, days r))
     (fst (snd (calc_full_oos_streaks six_days_example (999 / 1000))))
     = [(True, 2), (False, 1), (True, 3)]"
  by (simp_all only: calc_six_days_example snd_conv fst_conv list.map summary.simps run.simps)

lemma six_days_example_rows:
  "map dt six_days_example = [1, 2, 3, 4, 5, 6]"
  "map (\<lambda>r. full_oos_flag (999 / 1000) (oos_rate r)) six_days_example
     = [True, True, False, True, True, True]"
  "map group_cols six_days_example = replicate 6 (''S1'', ''P1'')"
  by code_simp+

lemma calc_tie_example:
  "calc_full_oos_streaks tie_example (999 / 1000) =
     (map2 add_run_id
        (map (add_is_full_oos (999 / 1000))
          [loaded_row ''S1'' ''P1'' 1 2 2, loaded_row ''S1'' ''P1'' 2 2 2,
           loaded_row ''S1'' ''P1'' 3 0 2, loaded_row ''S1'' ''P1'' 4 2 2,
           loaded_row ''S1'' ''P1'' 5 2 2, loaded_row ''S1'' ''P1'' 6 0 2,
           loaded_row ''S1'' ''P1'' 7 2 2])
        [1, 1, 2, 3, 3, 4, 5],
      [\<lparr>run_store_name = ''S1'', run_e_code = ''P1'', run_run_id = 1,
         run_is_full_oos = True, start_dt = 1, end_dt = 2, days = 2\<rparr>,
       \<lparr>run_store_name = ''S1'', run_e_code = ''P1'', run_run_id = 2,
         run_is_full_oos = False, start_dt = 3, end_dt = 3, days = 1\<rparr>,
       \<lparr>run_store_name = ''S1'', run_e_code = ''P1'', run_run_id = 3,
         run_is_full_oos = True, start_dt = 4, end_dt = 5, days = 2\<rparr>,
       \<lparr>run_store_name = ''S1'', run_e_code = ''P1'', run_run_id = 4,
         run_is_full_oos = False, start_dt = 6, end_dt = 6, days = 1\<rparr>,
       \<lparr>run_store_name = ''S1'', run_e_code = ''P1'', run_run_id = 5,
         run_is_full_oos = True, start_dt = 7, end_dt = 7, days = 1\<rparr>],
      [\<lparr>sum_store_name = ''S1'', sum_e_code = ''P1'', max_streak_start_dt = 1,
         max_streak_end_dt = 2, max_full_oos_streak_days = 2,
         total_full_oos_days = 5\<rparr>])"
  by code_simp

lemma calc_duplicate_example:
  "map dt duplicate_example = [3, 2, 2, 1]"
  "map group_cols duplicate_example =
     [(''S1'', ''P1''), (''S1'', ''P1''), (''S1'', ''P1''), (''S1'', ''P1'')]"
  "map dt (fst (calc_full_oos_streaks duplicate_example (999 / 1000))) = [1, 2, 2, 3]"
  "map is_full_oos (fst (calc_full_oos_streaks duplicate_example (999 / 1000)))
     = [True, True, False, True]"
  "map run_id (fst (calc_full_oos_streaks duplicate_example (999 / 1000))) = [1, 1, 2, 3]"
  "fst (snd (calc_full_oos_streaks duplicate_example (999 / 1000))) =
     [\<lparr>run_store_name = ''S1'', run_e_code = ''P1'', run_run_id = 1,
        run_is_full_oos = True, start_dt = 1, end_dt = 2, days = 2\<rparr>,
      \<lparr>run_store_name = ''S1'', run_e_code = ''P1'', run_run_id = 2,
        run_is_full_oos = False, start_dt = 2, end_dt = 2, days = 1\<rparr>,
      \<lparr>run_store_name = ''S1'', run_e_code = ''P1'', run_run_id = 3,
        run_is_full_oos = True, start_dt = 3, end_dt = 3, days = 1\<rparr>]"
  "snd (snd (calc_full_oos_streaks duplicate_example (999 / 1000))) =
     [\<lparr>sum_store_name = ''S1'', sum_e_code = ''P1'', max_streak_start_dt = 1,
        max_streak_end_dt = 2, max_full_oos_streak_days = 2, total_full_oos_days = 3\<rparr>]"
  by code_simp+

lemma calc_never_out_example:
  "map group_cols never_out_example = [(''S1'', ''P1''), (''S1'', ''P1''), (''S2'', ''P1'')]"
  "map is_full_oos (fst (calc_full_oos_streaks never_out_example (999 / 1000)))
     = [False, False, True]"
  "map run_group (fst (snd (calc_full_oos_streaks never_out_example (999 / 1000))))
     = [(''S1'', ''P1''), (''S2'', ''P1'')]"
  "map run_is_full_oos (fst (snd (calc_full_oos_streaks never_out_example (999 / 1000))))
     = [False, True]"
  "snd (snd (calc_full_oos_streaks never_out_example (999 / 1000))) =
     [\<lparr>sum_store_name = ''S2'', sum_e_code = ''P1'', max_streak_start_dt = 1,
        max_streak_end_dt = 1, max_full_oos_streak_days = 1, total_full_oos_days = 1\<rparr>]"
  by code_simp+


section \<open>The summary\<close>

subsection \<open>The first row of every group\<close>


lemma head1_subset: "x \<in> set (groupby_head1 f seen xs) \<Longrightarrow> x \<in> set xs"
  by (induction xs arbitrary: seen) (auto split: if_splits)

lemma head1_not_seen: "x \<in> set (groupby_head1 f seen xs) \<Longrightarrow> f x \<notin> set seen"
proof (induction xs arbitrary: seen)
  case Nil
  then show ?case by simp
next
  case (Cons r rs)
  show ?case
  proof (cases "f r \<in> set seen")
    case True
    then show ?thesis using Cons by simp
  next
    case False
    show ?thesis
    proof (cases "x = r")
      case True
      then show ?thesis using False by simp
    next
      case ne: False
      then have "x \<in> set (groupby_head1 f (f r # seen) rs)" using Cons.prems False by simp
      then have "f x \<notin> set (f r # seen)" by (rule Cons.IH)
      then show ?thesis by simp
    qed
  qed
qed

lemma head1_keys:
  "f ` set (groupby_head1 f seen xs) = f ` set xs - set seen"
proof (induction xs arbitrary: seen)
  case Nil
  then show ?case by simp
next
  case (Cons r rs)
  show ?case
  proof (cases "f r \<in> set seen")
    case True
    then show ?thesis using Cons.IH [of seen] by auto
  next
    case False
    then show ?thesis using Cons.IH [of "f r # seen"] by auto
  qed
qed

lemma head1_distinct: "distinct (map f (groupby_head1 f seen xs))"
proof (induction xs arbitrary: seen)
  case Nil
  then show ?case by simp
next
  case (Cons r rs)
  show ?case
  proof (cases "f r \<in> set seen")
    case True
    then show ?thesis using Cons.IH by simp
  next
    case False
    have "f r \<notin> f ` set (groupby_head1 f (f r # seen) rs)"
    proof
      assume "f r \<in> f ` set (groupby_head1 f (f r # seen) rs)"
      then obtain y where y: "y \<in> set (groupby_head1 f (f r # seen) rs)" "f r = f y" by auto
      then have "f y \<notin> set (f r # seen)" using head1_not_seen by fast
      then show False using y(2) by simp
    qed
    then show ?thesis using False Cons.IH by simp
  qed
qed

lemma head1_is_first:
  "x \<in> set (groupby_head1 f seen xs) \<Longrightarrow> x = hd (filter (\<lambda>y. f y = f x) xs)"
proof (induction xs arbitrary: seen)
  case Nil
  then show ?case by simp
next
  case (Cons r rs)
  show ?case
  proof (cases "f r \<in> set seen")
    case True
    then have x: "x \<in> set (groupby_head1 f seen rs)" using Cons.prems by simp
    then have "f x \<notin> set seen" by (rule head1_not_seen)
    then have "f r \<noteq> f x" using True by auto
    then show ?thesis using Cons.IH [OF x] by simp
  next
    case False
    show ?thesis
    proof (cases "x = r")
      case True
      then show ?thesis by simp
    next
      case ne: False
      then have x: "x \<in> set (groupby_head1 f (f r # seen) rs)"
        using Cons.prems False by simp
      then have "f x \<notin> set (f r # seen)" by (rule head1_not_seen)
      then have "f r \<noteq> f x" by auto
      then show ?thesis using Cons.IH [OF x] by simp
    qed
  qed
qed

lemma head1_sorted:
  "sorted (map h xs) \<Longrightarrow> sorted (map h (groupby_head1 f seen xs))"
proof (induction xs arbitrary: seen)
  case Nil
  then show ?case by simp
next
  case (Cons r rs)
  have "\<And>x s. x \<in> set (groupby_head1 f s rs) \<Longrightarrow> h r \<le> h x"
    using Cons.prems head1_subset [of _ f _ rs] by auto
  then show ?case using Cons by auto
qed

lemma sorted_hd_le: "sorted (map h xs) \<Longrightarrow> x \<in> set xs \<Longrightarrow> h (hd xs) \<le> h x"
  by (cases xs) auto

lemma hd_filter_sub:
  assumes "xs \<noteq> []" and "\<And>x. Q x \<Longrightarrow> P x" and "Q (hd (filter P xs))"
  shows "hd (filter Q xs) = hd (filter P xs)"
  using assms
proof (induction xs)
  case Nil
  then show ?case by simp
next
  case (Cons a xs)
  show ?case
  proof (cases "P a")
    case True
    then show ?thesis using Cons.prems by simp
  next
    case False
    then have nq: "\<not> Q a" using Cons.prems(2) by blast
    show ?thesis
    proof (cases "xs = []")
      case True
      then show ?thesis using False nq by simp
    next
      case ne: False
      then show ?thesis using Cons.IH [OF ne Cons.prems(2)] Cons.prems(3) False nq by simp
    qed
  qed
qed

subsection \<open>The run that \<^const>\<open>max_streaks\<close> picks\<close>

lemma streak_cols_same_group:
  "run_group x = run_group y \<Longrightarrow> streak_cols x \<le> streak_cols y \<longleftrightarrow> days y \<le> days x"
  by (simp add: run_group_def streak_cols_def less_eq_prod_def)

lemma streak_cols_eq:
  "streak_cols x = streak_cols y \<longleftrightarrow> run_group x = run_group y \<and> days x = days y"
  by (auto simp: run_group_def streak_cols_def)

lemma max_streaks_pick:
  assumes "r \<in> set (max_streaks runs)"
  shows "r \<in> set runs" and "run_is_full_oos r"
    and "\<And>r'. r' \<in> set runs \<Longrightarrow> run_group r' = run_group r \<Longrightarrow> run_is_full_oos r'
          \<Longrightarrow> days r' \<le> days r"
    and "r = hd (filter (\<lambda>x. run_group x = run_group r \<and> days x = days r)
                 (filter run_is_full_oos runs))"
proof -
  let ?F = "filter run_is_full_oos runs"
  let ?S = "sort_values streak_cols ?F"
  let ?Sk = "filter (\<lambda>y. run_group y = run_group r) ?S"
  have rS: "r \<in> set ?S" using assms unfolding max_streaks_def by (rule head1_subset)
  then show "r \<in> set runs" "run_is_full_oos r" by (simp_all add: sort_values_def)
  have first: "r = hd ?Sk" using assms unfolding max_streaks_def by (rule head1_is_first)
  have srt: "sorted (map streak_cols ?Sk)"
    unfolding sort_values_def by (rule sorted_filter) simp
  show "days r' \<le> days r" if "r' \<in> set runs" "run_group r' = run_group r" "run_is_full_oos r'" for r'
  proof -
    have "r' \<in> set ?Sk" using that by (simp add: sort_values_def)
    then have "streak_cols (hd ?Sk) \<le> streak_cols r'" using srt by (rule sorted_hd_le [rotated])
    then have "streak_cols r \<le> streak_cols r'" using first by simp
    then show ?thesis using that(2) by (simp add: streak_cols_same_group)
  qed
  have "hd (filter (\<lambda>x. streak_cols x = streak_cols r) ?S) = hd ?Sk"
  proof (rule hd_filter_sub)
    show "?S \<noteq> []" using rS by auto
    show "\<And>x. streak_cols x = streak_cols r \<Longrightarrow> run_group x = run_group r"
      by (simp add: streak_cols_eq)
    show "streak_cols (hd ?Sk) = streak_cols r" using first by simp
  qed
  moreover have "filter (\<lambda>x. streak_cols x = streak_cols r) ?S =
      filter (\<lambda>x. streak_cols x = streak_cols r) ?F"
    unfolding sort_values_def by (rule sort_key_stable)
  ultimately have "r = hd (filter (\<lambda>x. streak_cols x = streak_cols r) ?F)"
    using first by simp
  then show "r = hd (filter (\<lambda>x. run_group x = run_group r \<and> days x = days r) ?F)"
    by (simp only: streak_cols_eq)
qed

subsection \<open>The totals\<close>

lemma map_of_keyed:
  "map_of (map (\<lambda>k. (k, h k)) ks) k = (if k \<in> set ks then Some (h k) else None)"
  by (induction ks) auto

lemma total_lookup:
  "fillna 0 (map_of (total_full_days df) k) =
     length (filter is_full_oos (filter (\<lambda>x. group_cols x = k) df))"
proof -
  let ?F = "filter is_full_oos df"
  have td: "total_full_days df =
      map (\<lambda>k. (k, length (filter (\<lambda>x. group_cols x = k) ?F))) (group_keys group_cols ?F)"
    by (simp add: total_full_days_def groupby_def comp_def)
  have sw: "filter (\<lambda>x. group_cols x = k) ?F = filter is_full_oos (filter (\<lambda>x. group_cols x = k) df)"
    by (induction df) simp_all
  show ?thesis
  proof (cases "k \<in> set (group_keys group_cols ?F)")
    case True
    then show ?thesis by (simp only: td map_of_keyed sw if_True fillna_def option.case)
  next
    case False
    then have "filter (\<lambda>x. group_cols x = k) ?F = []"
      by (auto simp: filter_empty_conv)
    then show ?thesis using False by (simp only: td map_of_keyed sw [symmetric] if_False fillna_def option.case list.size)
  qed
qed

lemma length_filter_flag:
  "map is_full_oos xs = map is_full_oos ys \<Longrightarrow>
     length (filter is_full_oos xs) = length (filter is_full_oos ys)"
proof (induction xs arbitrary: ys)
  case Nil
  then show ?case by simp
next
  case (Cons x xs)
  then obtain y ys' where ys: "ys = y # ys'" by (cases ys) auto
  then have "is_full_oos x = is_full_oos y" "map is_full_oos xs = map is_full_oos ys'"
    using Cons.prems by simp_all
  then show ?case using Cons.IH [of ys'] ys by simp
qed

lemma summary_row:
  assumes "s \<in> set (snd (snd (calc_full_oos_streaks df thr)))"
  obtains r where "r \<in> set (max_streaks (fst (snd (calc_full_oos_streaks df thr))))"
    and "sum_group s = run_group r"
    and "max_full_oos_streak_days s = days r"
    and "max_streak_start_dt s = start_dt r"
    and "max_streak_end_dt s = end_dt r"
    and "total_full_oos_days s =
           length (filter is_full_oos (filter (\<lambda>x. group_cols x = run_group r)
             (fst (calc_full_oos_streaks df thr))))"
proof -
  from assms obtain r where r: "r \<in> set (max_streaks (fst (snd (calc_full_oos_streaks df thr))))"
    and s: "s = merge_total (total_full_days (fst (calc_full_oos_streaks df thr))) r"
    unfolding calc_summary by auto
  show ?thesis
  proof (rule that [OF r])
    show "sum_group s = run_group r" by (simp add: s merge_total_def sum_group_def run_group_def)
    show "max_full_oos_streak_days s = days r" by (simp add: s merge_total_def)
    show "max_streak_start_dt s = start_dt r" by (simp add: s merge_total_def)
    show "max_streak_end_dt s = end_dt r" by (simp add: s merge_total_def)
    show "total_full_oos_days s =
           length (filter is_full_oos (filter (\<lambda>x. group_cols x = run_group r)
             (fst (calc_full_oos_streaks df thr))))"
      by (simp add: s merge_total_def total_lookup)
  qed
qed

lemma group_total_days:
  "sum_list (map days (filter run_is_full_oos
      (filter (\<lambda>r. run_group r = k) (fst (snd (calc_full_oos_streaks df thr)))))) =
     length (filter is_full_oos (filter (\<lambda>x. group_cols x = k) (fst (calc_full_oos_streaks df thr))))"
proof -
  let ?g2 = "filter (\<lambda>r. group_cols r = k) (sort_values sort_cols (map (add_is_full_oos thr) df))"
  have a: "sum_list (map days (filter run_is_full_oos
      (filter (\<lambda>r. run_group r = k) (fst (snd (calc_full_oos_streaks df thr)))))) =
      length (filter is_full_oos ?g2)"
    by (simp only: group_runs_calc group_true_days)
  have "map is_full_oos (filter (\<lambda>x. group_cols x = k) (fst (calc_full_oos_streaks df thr)))
      = map is_full_oos ?g2"
    by (simp only: group_df_run_ids group_run_ids_sel)
  then have "length (filter is_full_oos (filter (\<lambda>x. group_cols x = k) (fst (calc_full_oos_streaks df thr))))
      = length (filter is_full_oos ?g2)"
    by (rule length_filter_flag)
  then show ?thesis using a by (simp only:)
qed

subsection \<open>Start dates along the runs of a group\<close>

lemma block_runs_start_sorted:
  assumes "sorted (map dt (concat bs))" and "[] \<notin> set bs"
  shows "sorted (map start_dt (block_runs k n bs))"
proof -
  have "map start_dt (block_runs k n bs) = map (\<lambda>b. Min (set (map dt b))) bs"
    by (induction bs arbitrary: n) (simp_all add: block_run_def)
  also have "\<dots> = map (\<lambda>b. dt (hd b)) bs"
  proof (rule map_cong [OF refl])
    fix b assume b: "b \<in> set bs"
    then have "sorted (map dt b)" using assms(1) by (rule sorted_blocks [rotated])
    moreover have ne: "b \<noteq> []" using b assms(2) by auto
    ultimately have "Min (set (map dt b)) = hd (map dt b)"
      using sorted_Min_hd [of "map dt b"] by simp
    then show "Min (set (map dt b)) = dt (hd b)" using ne by (simp add: hd_map)
  qed
  finally show ?thesis using sorted_block_hds [OF assms] by simp
qed

lemma group_runs_start_sorted:
  "sorted (map start_dt (filter P
     (filter (\<lambda>r. run_group r = k) (fst (snd (calc_full_oos_streaks df thr))))))"
proof -
  let ?g2 = "filter (\<lambda>r. group_cols r = k) (sort_values sort_cols (map (add_is_full_oos thr) df))"
  have "sorted (map dt (concat (blocks is_full_oos ?g2)))"
    by (simp only: concat_blocks sorted_group_dt)
  then have "sorted (map start_dt (block_runs k 1 (blocks is_full_oos ?g2)))"
    using blocks_nonempty by (rule block_runs_start_sorted)
  then show ?thesis
    unfolding group_runs_calc by (rule sorted_filter)
qed

lemma filter_regroup:
  "filter (\<lambda>x. A x \<and> D x) (filter F xs) = filter (\<lambda>x. F x \<and> D x) (filter A xs)"
  by (induction xs) auto

lemma max_streak_earliest:
  assumes r: "r \<in> set (max_streaks (fst (snd (calc_full_oos_streaks df thr))))"
    and r': "r' \<in> set (fst (snd (calc_full_oos_streaks df thr)))"
    and g: "run_group r' = run_group r" and f: "run_is_full_oos r'" and d: "days r' = days r"
  shows "start_dt r \<le> start_dt r'"
proof -
  let ?runs = "fst (snd (calc_full_oos_streaks df thr))"
  let ?T = "filter (\<lambda>x. run_group x = run_group r \<and> days x = days r) (filter run_is_full_oos ?runs)"
  have first: "r = hd ?T" using r by (rule max_streaks_pick(4))
  have eq: "?T = filter (\<lambda>x. run_is_full_oos x \<and> days x = days r)
      (filter (\<lambda>x. run_group x = run_group r) ?runs)"
    by (rule filter_regroup)
  have "sorted (map start_dt ?T)" unfolding eq by (rule group_runs_start_sorted)
  moreover have "r' \<in> set ?T" using r' g f d by simp
  ultimately have "start_dt (hd ?T) \<le> start_dt r'" by (rule sorted_hd_le)
  then show ?thesis using first by simp
qed

section \<open>The returned daily table and the input\<close>

lemma truncate_add_run_id [simp]: "flagged.truncate (add_run_id r i) = r"
  by (cases r) (simp add: add_run_id_def flagged.truncate_def flagged.defs daily.defs runrow.defs)

lemma truncate_group_run_ids: "map flagged.truncate (group_run_ids g) = g"
proof -
  have "\<And>ids. length ids = length g \<Longrightarrow> map flagged.truncate (map2 add_run_id g ids) = g"
  proof -
    fix ids :: "nat list" assume "length ids = length g"
    then show "map flagged.truncate (map2 add_run_id g ids) = g"
      by (induction g ids rule: list_induct2') simp_all
  qed
  then show ?thesis by (simp add: group_run_ids_def run_ids_rid_from)
qed

lemma sort_cols_group_mono:
  "sort_cols x \<le> sort_cols y \<Longrightarrow> group_cols x \<le> group_cols y"
  by (auto simp: sort_cols_def group_cols_def less_eq_prod_def)

lemma sorted_sort_cols_group:
  "sorted (map sort_cols xs) \<Longrightarrow> sorted (map group_cols xs)"
proof -
  assume "sorted (map sort_cols xs)"
  then have "sorted_wrt (\<lambda>x y. sort_cols x \<le> sort_cols y) xs" by (simp only: sorted_map)
  then have "sorted_wrt (\<lambda>x y. group_cols x \<le> group_cols y) xs"
    by (rule sorted_wrt_mono_rel [rotated]) (rule sort_cols_group_mono)
  then show ?thesis by (simp only: sorted_map)
qed

lemma truncate_assign_run_id:
  assumes "sorted (map group_cols df)"
  shows "map flagged.truncate (assign_run_id df) = df"
proof -
  have "assign_run_id df = concat (map group_run_ids (blocks group_cols df))"
    by (simp add: assign_run_id_def groupby_sorted [OF assms] comp_def)
  then have "map flagged.truncate (assign_run_id df) =
      concat (map (\<lambda>g. map flagged.truncate (group_run_ids g)) (blocks group_cols df))"
    by (simp add: map_concat comp_def)
  then show ?thesis by (simp add: truncate_group_run_ids)
qed

lemma calc_df_truncate:
  "map flagged.truncate (fst (calc_full_oos_streaks df thr)) =
     sort_values sort_cols (map (add_is_full_oos thr) df)"
proof -
  have "sorted (map sort_cols (sort_values sort_cols (map (add_is_full_oos thr) df)))"
    by (simp add: sort_values_def)
  then have "sorted (map group_cols (sort_values sort_cols (map (add_is_full_oos thr) df)))"
    by (rule sorted_sort_cols_group)
  then show ?thesis unfolding calc_df by (rule truncate_assign_run_id)
qed

lemma sum_indicator:
  "distinct ks \<Longrightarrow> a \<in> set ks \<Longrightarrow> sum_list (map (\<lambda>k. of_bool (a = k)) ks) = (1::nat)"
proof (induction ks)
  case Nil
  then show ?case by simp
next
  case (Cons b ks)
  show ?case
  proof (cases "a = b")
    case True
    then have "a \<notin> set ks" using Cons.prems(1) by simp
    then have "sum_list (map (\<lambda>k. of_bool (a = k)) ks) = (0::nat)"
      by (induction ks) auto
    then show ?thesis using True by simp
  next
    case False
    then have "a \<in> set ks" using Cons.prems(2) by simp
    then show ?thesis using Cons False by simp
  qed
qed

lemma sum_group_sizes:
  assumes "distinct ks" and "f ` set xs \<subseteq> set ks"
  shows "sum_list (map (\<lambda>k. length (filter (\<lambda>x. f x = k) xs)) ks) = length xs"
  using assms(2)
proof (induction xs)
  case Nil
  then show ?case by simp
next
  case (Cons x xs)
  have "f x \<in> set ks" using Cons.prems by auto
  then have one: "sum_list (map (\<lambda>k. of_bool (f x = k)) ks) = (1::nat)"
    using assms(1) by (rule sum_indicator [rotated])
  have "sum_list (map (\<lambda>k. length (filter (\<lambda>y. f y = k) (x # xs))) ks) =
      sum_list (map (\<lambda>k. of_bool (f x = k) + length (filter (\<lambda>y. f y = k) xs)) ks)"
    by (intro arg_cong [of _ _ sum_list] map_cong) auto
  also have "\<dots> = sum_list (map (\<lambda>k. of_bool (f x = k)) ks)
      + sum_list (map (\<lambda>k. length (filter (\<lambda>y. f y = k) xs)) ks)"
    by (simp add: sum_list_addf)
  finally show ?case using one Cons by simp
qed

lemma sum_days_make_runs: "sum_list (map days (make_runs df)) = length df"
proof -
  have "map days (make_runs df) =
      map (\<lambda>k. length (filter (\<lambda>x. run_cols x = k) df)) (group_keys run_cols df)"
    by (simp add: make_runs_def groupby_def comp_def agg_run_def split: prod.splits)
  then show ?thesis
    using sum_group_sizes [of "group_keys run_cols df" run_cols df] by simp
qed

lemma length_calc_df: "length (fst (calc_full_oos_streaks df thr)) = length df"
  using arg_cong [OF calc_df_truncate [of df thr], of length] by (simp add: sort_values_def)

lemma truncate_sel [simp]:
  "group_cols (flagged.truncate x) = group_cols x"
  "sort_cols (flagged.truncate x) = sort_cols x"
  "is_full_oos (flagged.truncate x) = is_full_oos x"
  by (simp_all add: flagged.truncate_def group_cols_def sort_cols_def flagged.defs daily.defs)

lemma add_is_full_oos_sel [simp]:
  "group_cols (add_is_full_oos thr r) = group_cols r"
  "sort_cols (add_is_full_oos thr r) = sort_cols r"
  "is_full_oos (add_is_full_oos thr r) = full_oos_flag thr (oos_rate r)"
  by (simp_all add: add_is_full_oos_def group_cols_def sort_cols_def)

lemma calc_df_cols:
  "map sort_cols (fst (calc_full_oos_streaks df thr)) =
     map sort_cols (sort_values sort_cols (map (add_is_full_oos thr) df))"
  "map group_cols (fst (calc_full_oos_streaks df thr)) =
     map group_cols (sort_values sort_cols (map (add_is_full_oos thr) df))"
  "map (\<lambda>x. (group_cols x, is_full_oos x)) (fst (calc_full_oos_streaks df thr)) =
     map (\<lambda>x. (group_cols x, is_full_oos x)) (sort_values sort_cols (map (add_is_full_oos thr) df))"
  using arg_cong [OF calc_df_truncate [of df thr], of "map sort_cols"]
    arg_cong [OF calc_df_truncate [of df thr], of "map group_cols"]
    arg_cong [OF calc_df_truncate [of df thr], of "map (\<lambda>x. (group_cols x, is_full_oos x))"]
  by (simp_all add: comp_def)

lemma calc_df_sorted: "sorted (map sort_cols (fst (calc_full_oos_streaks df thr)))"
  by (simp add: calc_df_cols sort_values_def)

lemma calc_df_flagged_rows:
  "(\<exists>x\<in>set (fst (calc_full_oos_streaks df thr)). group_cols x = k \<and> is_full_oos x) \<longleftrightarrow>
   (\<exists>r\<in>set df. group_cols r = k \<and> full_oos_flag thr (oos_rate r))"
proof -
  have "(\<exists>x\<in>set (fst (calc_full_oos_streaks df thr)). group_cols x = k \<and> is_full_oos x) \<longleftrightarrow>
      (k, True) \<in> set (map (\<lambda>x. (group_cols x, is_full_oos x)) (fst (calc_full_oos_streaks df thr)))"
    by (auto simp: image_iff)
  also have "\<dots> \<longleftrightarrow> (k, True) \<in> set (map (\<lambda>x. (group_cols x, is_full_oos x))
      (sort_values sort_cols (map (add_is_full_oos thr) df)))"
    by (simp only: calc_df_cols)
  also have "\<dots> \<longleftrightarrow> (\<exists>r\<in>set df. group_cols r = k \<and> full_oos_flag thr (oos_rate r))"
    by (auto simp: sort_values_def image_iff)
  finally show ?thesis .
qed

section \<open>Which groups the tables have\<close>

lemma run_days_pos:
  assumes "r \<in> set (fst (snd (calc_full_oos_streaks df thr)))"
  shows "0 < days r"
proof -
  have "r \<in> set (filter (\<lambda>x. run_group x = run_group r) (fst (snd (calc_full_oos_streaks df thr))))"
    using assms by simp
  then have "run_members (fst (calc_full_oos_streaks df thr)) r \<noteq> []
      \<and> days r = length (run_members (fst (calc_full_oos_streaks df thr)) r)"
    using group_partition [of "run_group r" df thr] by blast
  then show ?thesis by simp
qed

lemma true_run_iff_flagged_row:
  "(\<exists>r\<in>set (fst (snd (calc_full_oos_streaks df thr))). run_group r = k \<and> run_is_full_oos r) \<longleftrightarrow>
   (\<exists>x\<in>set (fst (calc_full_oos_streaks df thr)). group_cols x = k \<and> is_full_oos x)"
proof -
  let ?T = "filter run_is_full_oos (filter (\<lambda>r. run_group r = k) (fst (snd (calc_full_oos_streaks df thr))))"
  let ?D = "filter is_full_oos (filter (\<lambda>x. group_cols x = k) (fst (calc_full_oos_streaks df thr)))"
  have sum: "sum_list (map days ?T) = length ?D" by (rule group_total_days)
  have pos: "\<And>r. r \<in> set ?T \<Longrightarrow> 0 < days r"
  proof -
    fix r assume "r \<in> set ?T"
    then have "r \<in> set (fst (snd (calc_full_oos_streaks df thr)))" by simp
    then show "0 < days r" by (rule run_days_pos)
  qed
  have "?T \<noteq> [] \<longleftrightarrow> ?D \<noteq> []"
  proof
    assume "?T \<noteq> []"
    then obtain r where r: "r \<in> set ?T" by (meson last_in_set)
    then have "days r \<le> sum_list (map days ?T)" by (simp add: member_le_sum_list)
    then have "0 < length ?D" using pos [OF r] sum by linarith
    then show "?D \<noteq> []" by simp
  next
    assume "?D \<noteq> []"
    then have "0 < length ?D" by simp
    then have "0 < sum_list (map days ?T)" using sum by linarith
    then show "?T \<noteq> []" by (cases ?T) simp_all
  qed
  moreover have "?T \<noteq> [] \<longleftrightarrow>
      (\<exists>r\<in>set (fst (snd (calc_full_oos_streaks df thr))). run_group r = k \<and> run_is_full_oos r)"
    by (auto simp: filter_empty_conv)
  moreover have "?D \<noteq> [] \<longleftrightarrow>
      (\<exists>x\<in>set (fst (calc_full_oos_streaks df thr)). group_cols x = k \<and> is_full_oos x)"
    by (auto simp: filter_empty_conv)
  ultimately show ?thesis by simp
qed

lemma summary_groups:
  "sum_group ` set (snd (snd (calc_full_oos_streaks df thr))) =
     run_group ` set (filter run_is_full_oos (fst (snd (calc_full_oos_streaks df thr))))"
proof -
  have sg: "\<And>t r. sum_group (merge_total t r) = run_group r"
    by (simp add: merge_total_def sum_group_def run_group_def)
  have "sum_group ` set (snd (snd (calc_full_oos_streaks df thr))) =
      run_group ` set (max_streaks (fst (snd (calc_full_oos_streaks df thr))))"
    unfolding calc_summary by (simp add: image_image sg)
  also have "\<dots> = run_group ` set (filter run_is_full_oos (fst (snd (calc_full_oos_streaks df thr))))"
    unfolding max_streaks_def head1_keys by (simp add: sort_values_def)
  finally show ?thesis .
qed

lemma summary_distinct:
  "distinct (map sum_group (snd (snd (calc_full_oos_streaks df thr))))"
proof -
  have sg: "\<And>t. sum_group \<circ> merge_total t = run_group"
    by (auto simp: merge_total_def sum_group_def run_group_def)
  show ?thesis
    unfolding calc_summary map_map sg max_streaks_def by (rule head1_distinct)
qed

lemma run_groups:
  "run_group ` set (fst (snd (calc_full_oos_streaks df thr))) = group_cols ` set df"
proof -
  let ?daily = "fst (calc_full_oos_streaks df thr)"
  have "run_group ` set (fst (snd (calc_full_oos_streaks df thr))) =
      (\<lambda>k3. (fst k3, fst (snd k3))) ` run_cols ` set ?daily"
    unfolding calc_runs calc_df [symmetric]
    by (simp add: make_runs_def groupby_def image_image run_group_agg_run')
  also have "\<dots> = set (map group_cols ?daily)"
    by (simp add: image_image run_cols_def group_cols_def)
  also have "\<dots> = group_cols ` set df"
    unfolding calc_df_cols by (simp add: sort_values_def image_image)
  finally show ?thesis .
qed

section \<open>Ranking a table that is sorted on the group key\<close>

lemma insort_key_lex:
  assumes "sorted (map (\<lambda>y. (f y, g y)) ys)" and "\<forall>y\<in>set ys. g x \<le> g y"
  shows "sorted (map (\<lambda>y. (f y, g y)) (insort_key f x ys))"
  using assms
proof (induction ys)
  case Nil
  then show ?case by simp
next
  case (Cons y ys)
  show ?case
  proof (cases "f x \<le> f y")
    case True
    have "\<forall>z\<in>set (y # ys). (f x, g x) \<le> (f z, g z)"
    proof
      fix z assume z: "z \<in> set (y # ys)"
      then have "(f y, g y) \<le> (f z, g z)" using Cons.prems(1) by auto
      then have "f y \<le> f z" by (auto simp: less_eq_prod_def)
      then have "f x \<le> f z" using True by simp
      moreover have "g x \<le> g z" using z Cons.prems(2) by blast
      ultimately show "(f x, g x) \<le> (f z, g z)" by (auto simp: less_eq_prod_def)
    qed
    then show ?thesis using True Cons.prems(1) by simp
  next
    case False
    then have "(f y, g y) \<le> (f x, g x)" by (auto simp: less_eq_prod_def)
    moreover have "sorted (map (\<lambda>y. (f y, g y)) (insort_key f x ys))"
      using Cons by simp
    ultimately show ?thesis using False Cons.prems(1) by (auto simp: set_insort_key)
  qed
qed

lemma sort_key_lex:
  "sorted (map g xs) \<Longrightarrow> sorted (map (\<lambda>y. (f y, g y)) (sort_key f xs))"
proof (induction xs)
  case Nil
  then show ?case by simp
next
  case (Cons x xs)
  then have "sorted (map (\<lambda>y. (f y, g y)) (sort_key f xs))" "\<forall>y\<in>set (sort_key f xs). g x \<le> g y"
    by auto
  then show ?case by (simp add: insort_key_lex)
qed

lemma streak_cols_group_mono:
  "streak_cols x \<le> streak_cols y \<Longrightarrow> run_group x \<le> run_group y"
  by (auto simp: streak_cols_def run_group_def less_eq_prod_def)

lemma summary_sorted:
  "sorted (map sum_group (snd (snd (calc_full_oos_streaks df thr))))"
proof -
  let ?F = "filter run_is_full_oos (fst (snd (calc_full_oos_streaks df thr)))"
  have sg: "\<And>t. sum_group \<circ> merge_total t = run_group"
    by (auto simp: merge_total_def sum_group_def run_group_def)
  have "sorted (map streak_cols (sort_values streak_cols ?F))" by (simp add: sort_values_def)
  then have "sorted_wrt (\<lambda>x y. streak_cols x \<le> streak_cols y) (sort_values streak_cols ?F)"
    by (simp only: sorted_map)
  then have "sorted_wrt (\<lambda>x y. run_group x \<le> run_group y) (sort_values streak_cols ?F)"
    by (rule sorted_wrt_mono_rel [rotated]) (rule streak_cols_group_mono)
  then have "sorted (map run_group (sort_values streak_cols ?F))" by (simp only: sorted_map)
  then have "sorted (map run_group (groupby_head1 run_group [] (sort_values streak_cols ?F)))"
    by (rule head1_sorted)
  then show ?thesis unfolding calc_summary map_map sg max_streaks_def .
qed

lemma top_tied_summaries:
  "map sum_group (top 10 tied_summaries) = [(''B'', ''P''), (''A'', ''P''), (''C'', ''P'')]"
  "map max_full_oos_streak_days tied_summaries = [2, 2, 2]"
  "map total_full_oos_days tied_summaries = [3, 3, 3]"
  by code_simp+


section \<open>The function on the store\<close>

lemma calc_store_result:
  assumes "df < length h" and "h ! df = Daily rows"
  shows "calc_full_oos_streaks_store df thr h =
     Some ((Suc (length h), Suc (Suc (length h)), Suc (Suc (Suc (length h)))),
       h @ [Flagged (map (add_is_full_oos thr) rows),
            Runrows (fst (calc_full_oos_streaks rows thr)),
            Runs (fst (snd (calc_full_oos_streaks rows thr))),
            Summaries (snd (snd (calc_full_oos_streaks rows thr)))])"
proof -
  let ?fl = "map (add_is_full_oos thr) rows"
  let ?h1 = "h @ [Daily rows]"
  let ?h2 = "h @ [Flagged ?fl]"
  let ?h3 = "h @ [Flagged ?fl, Flagged (sort_values sort_cols ?fl)]"
  let ?h4 = "h @ [Flagged ?fl, Runrows (assign_run_id (sort_values sort_cols ?fl))]"
  have 1: "copy_frame df h = Some (length h, ?h1)"
    using assms by (simp add: copy_frame_def new_object_def)
  have 2: "set_is_full_oos thr (length h) ?h1 = Some ?h2"
    by (simp add: set_is_full_oos_def)
  have 3: "sorted_frame (length h) ?h2 = Some (Suc (length h), ?h3)"
    by (simp add: sorted_frame_def new_object_def)
  have 4: "set_run_id (Suc (length h)) ?h3 = Some ?h4"
    by (simp add: set_run_id_def nth_append list_update_append)
  have 5: "runs_and_summary (Suc (length h)) ?h4 =
      Some ((Suc (Suc (length h)), Suc (Suc (Suc (length h)))),
        h @ [Flagged ?fl, Runrows (assign_run_id (sort_values sort_cols ?fl)),
          Runs (make_runs (assign_run_id (sort_values sort_cols ?fl))),
          Summaries (map (merge_total (total_full_days (assign_run_id (sort_values sort_cols ?fl))))
            (max_streaks (make_runs (assign_run_id (sort_values sort_cols ?fl)))))])"
    by (simp add: runs_and_summary_def new_object_def nth_append)
  show ?thesis
    by (simp add: calc_full_oos_streaks_store_def 1 2 3 4 5 calc_full_oos_streaks_def Let_def)
qed


section \<open>The claims\<close>

subsection \<open>C1: no ordering check\<close>

text \<open>
  C1 says a group with a duplicate or out-of-order date makes the segmenter fail with an
  \<open>OrderingError\<close>. The function has no such check and raises nothing: on one group
  with the dates 3, 2, 2, 1 it sorts the rows, keeps both rows of day 2 (the flagged one
  first, as in the input), and returns three runs.
\<close>

theorem C1_ordering_error_counterexample:
  "map dt duplicate_example = [3, 2, 2, 1]
   \<and> map group_cols duplicate_example =
       [(''S1'', ''P1''), (''S1'', ''P1''), (''S1'', ''P1''), (''S1'', ''P1'')]
   \<and> map dt (fst (calc_full_oos_streaks duplicate_example (999 / 1000))) = [1, 2, 2, 3]
   \<and> map run_id (fst (calc_full_oos_streaks duplicate_example (999 / 1000))) = [1, 1, 2, 3]
   \<and> fst (snd (calc_full_oos_streaks duplicate_example (999 / 1000))) =
     [\<lparr>run_store_name = ''S1'', run_e_code = ''P1'', run_run_id = 1,
        run_is_full_oos = True, start_dt = 1, end_dt = 2, days = 2\<rparr>,
      \<lparr>run_store_name = ''S1'', run_e_code = ''P1'', run_run_id = 2,
        run_is_full_oos = False, start_dt = 2, end_dt = 2, days = 1\<rparr>,
      \<lparr>run_store_name = ''S1'', run_e_code = ''P1'', run_run_id = 3,
        run_is_full_oos = True, start_dt = 3, end_dt = 3, days = 1\<rparr>]"
  using calc_duplicate_example by (intro conjI)

text \<open>
  C1, amended: \<^verbatim>\<open>calc_full_oos_streaks\<close> accepts every input, in whatever row order and
  with or without duplicate dates, and never raises an ordering error. It sorts the rows
  itself: the returned daily table, without its run id column, is the flagged input in
  the stable order of (store, product, date), so no row is dropped and rows with the same
  date stay in their input order; and every row, duplicates included, is counted in a
  run: the \<open>days\<close> of the run table add up to the number of input rows.
\<close>

theorem C1_sorts_and_keeps_every_row:
  "map flagged.truncate (fst (calc_full_oos_streaks df thr)) =
     sort_values sort_cols (map (add_is_full_oos thr) df)
   \<and> sorted (map sort_cols (fst (calc_full_oos_streaks df thr)))
   \<and> mset (map flagged.truncate (fst (calc_full_oos_streaks df thr))) =
       mset (map (add_is_full_oos thr) df)
   \<and> sum_list (map days (fst (snd (calc_full_oos_streaks df thr)))) = length df"
proof -
  have "sum_list (map days (fst (snd (calc_full_oos_streaks df thr)))) =
      length (fst (calc_full_oos_streaks df thr))"
    unfolding calc_runs calc_df by (rule sum_days_make_runs)
  then have "sum_list (map days (fst (snd (calc_full_oos_streaks df thr)))) = length df"
    by (simp only: length_calc_df)
  moreover have "mset (map flagged.truncate (fst (calc_full_oos_streaks df thr))) =
       mset (map (add_is_full_oos thr) df)"
    by (simp only: calc_df_truncate sort_values_def mset_sort)
  ultimately show ?thesis using calc_df_truncate calc_df_sorted by blast
qed

theorem C1_sorts_and_keeps_every_row_witness:
  "map dt (fst (calc_full_oos_streaks duplicate_example (999 / 1000))) = [1, 2, 2, 3]
   \<and> sorted (map sort_cols (fst (calc_full_oos_streaks duplicate_example (999 / 1000))))
   \<and> sum_list (map days (fst (snd (calc_full_oos_streaks duplicate_example (999 / 1000)))))
       = length duplicate_example"
  using C1_sorts_and_keeps_every_row [of duplicate_example "999 / 1000"]
    calc_duplicate_example(3) by (elim conjE, intro conjI)


subsection \<open>C2: a group that is never fully out of stock\<close>

text \<open>
  C2 says a group with records and no flagged run still has a row in the summary, with
  zeros. The summary is built from the flagged runs only (line 99), so such a group has
  no row: here the group (S1, P1) has two records and one unflagged run, and the summary
  has the row of (S2, P1) alone.
\<close>

theorem C2_zero_streak_row_counterexample:
  "map group_cols never_out_example = [(''S1'', ''P1''), (''S1'', ''P1''), (''S2'', ''P1'')]
   \<and> map run_group (fst (snd (calc_full_oos_streaks never_out_example (999 / 1000))))
       = [(''S1'', ''P1''), (''S2'', ''P1'')]
   \<and> map run_is_full_oos (fst (snd (calc_full_oos_streaks never_out_example (999 / 1000))))
       = [False, True]
   \<and> snd (snd (calc_full_oos_streaks never_out_example (999 / 1000))) =
     [\<lparr>sum_store_name = ''S2'', sum_e_code = ''P1'', max_streak_start_dt = 1,
        max_streak_end_dt = 1, max_full_oos_streak_days = 1, total_full_oos_days = 1\<rparr>]"
  using calc_never_out_example by (intro conjI)

text \<open>
  C2, amended: the summary has a row for a group exactly when the group has a flagged
  day, one row per such group, and every row has a positive \<open>max_full_oos_streak_days\<close>
  and a positive \<open>total_full_oos_days\<close>. A group with records and no flagged run is
  absent from the summary; it is present in the run table, which has the runs of every
  group of the input.
\<close>

theorem C2_summary_has_flagged_groups_only:
  "(k \<in> sum_group ` set (snd (snd (calc_full_oos_streaks df thr))) \<longleftrightarrow>
      (\<exists>r\<in>set df. group_cols r = k \<and> full_oos_flag thr (oos_rate r)))
   \<and> (k \<in> run_group ` set (fst (snd (calc_full_oos_streaks df thr))) \<longleftrightarrow>
      k \<in> group_cols ` set df)
   \<and> distinct (map sum_group (snd (snd (calc_full_oos_streaks df thr))))
   \<and> (\<forall>s\<in>set (snd (snd (calc_full_oos_streaks df thr))).
        0 < max_full_oos_streak_days s \<and> 0 < total_full_oos_days s)"
proof -
  let ?runs = "fst (snd (calc_full_oos_streaks df thr))"
  let ?daily = "fst (calc_full_oos_streaks df thr)"
  have "k \<in> sum_group ` set (snd (snd (calc_full_oos_streaks df thr))) \<longleftrightarrow>
      (\<exists>r\<in>set ?runs. run_group r = k \<and> run_is_full_oos r)"
    unfolding summary_groups by auto
  then have 1: "k \<in> sum_group ` set (snd (snd (calc_full_oos_streaks df thr))) \<longleftrightarrow>
      (\<exists>r\<in>set df. group_cols r = k \<and> full_oos_flag thr (oos_rate r))"
    by (simp only: true_run_iff_flagged_row calc_df_flagged_rows)
  have 2: "k \<in> run_group ` set ?runs \<longleftrightarrow> k \<in> group_cols ` set df"
    by (simp only: run_groups)
  have 4: "\<forall>s\<in>set (snd (snd (calc_full_oos_streaks df thr))).
        0 < max_full_oos_streak_days s \<and> 0 < total_full_oos_days s"
  proof
    fix s assume "s \<in> set (snd (snd (calc_full_oos_streaks df thr)))"
    then obtain r where r: "r \<in> set (max_streaks ?runs)"
      and m: "max_full_oos_streak_days s = days r"
      and t: "total_full_oos_days s =
           length (filter is_full_oos (filter (\<lambda>x. group_cols x = run_group r) ?daily))"
      by (rule summary_row)
    have rr: "r \<in> set ?runs" "run_is_full_oos r" using r by (rule max_streaks_pick)+
    then have pos: "0 < days r" using run_days_pos by blast
    have "r \<in> set (filter run_is_full_oos (filter (\<lambda>x. run_group x = run_group r) ?runs))"
      using rr by simp
    then have "days r \<le> sum_list (map days
        (filter run_is_full_oos (filter (\<lambda>x. run_group x = run_group r) ?runs)))"
      by (intro member_le_sum_list) auto
    then have "days r \<le> total_full_oos_days s" by (simp only: group_total_days t)
    then show "0 < max_full_oos_streak_days s \<and> 0 < total_full_oos_days s"
      using pos m by linarith
  qed
  show ?thesis using 1 2 4 summary_distinct by blast
qed

theorem C2_summary_has_flagged_groups_only_witness:
  "map sum_group (snd (snd (calc_full_oos_streaks never_out_example (999 / 1000))))
     = [(''S2'', ''P1'')]
   \<and> 0 < max_full_oos_streak_days
         (hd (snd (snd (calc_full_oos_streaks never_out_example (999 / 1000)))))
   \<and> 0 < total_full_oos_days
         (hd (snd (snd (calc_full_oos_streaks never_out_example (999 / 1000)))))
   \<and> ((''S1'', ''P1'') \<in> sum_group `
        set (snd (snd (calc_full_oos_streaks never_out_example (999 / 1000)))) \<longleftrightarrow>
      (\<exists>r\<in>set never_out_example.
         group_cols r = (''S1'', ''P1'') \<and> full_oos_flag (999 / 1000) (oos_rate r)))"
proof -
  have 1: "map sum_group (snd (snd (calc_full_oos_streaks never_out_example (999 / 1000))))
     = [(''S2'', ''P1'')]"
    by (simp add: calc_never_out_example sum_group_def)
  have 2: "hd (snd (snd (calc_full_oos_streaks never_out_example (999 / 1000))))
      \<in> set (snd (snd (calc_full_oos_streaks never_out_example (999 / 1000))))"
    by (simp add: calc_never_out_example)
  show ?thesis
    using 1 2
      C2_summary_has_flagged_groups_only [of "(''S1'', ''P1'')" never_out_example "999 / 1000"]
    by blast
qed

subsection \<open>C3: the ranked view\<close>

text \<open>
  C3 says that summaries that tie on both metrics are ordered by group key. The sort of
  the ranked view has the two metric columns only; rows that tie keep the order of the
  table they come from. A table with the tied groups B, A, C in this order is returned
  in this order, which is no lexical order of the keys.
\<close>

theorem C3_tertiary_key_counterexample:
  "map max_full_oos_streak_days tied_summaries = [2, 2, 2]
   \<and> map total_full_oos_days tied_summaries = [3, 3, 3]
   \<and> map sum_group tied_summaries = [(''B'', ''P''), (''A'', ''P''), (''C'', ''P'')]
   \<and> map sum_group (top 10 tied_summaries) = [(''B'', ''P''), (''A'', ''P''), (''C'', ''P'')]"
  using top_tied_summaries by (simp add: tied_summaries_def sum_group_def)

text \<open>
  C3, amended: the ranked view is the first \<open>n\<close> rows of the table sorted on
  \<open>max_full_oos_streak_days\<close> descending, then \<open>total_full_oos_days\<close> descending
  (\<^const>\<open>rank_cols\<close> is the pair of the two negated metrics, so ascending in it is
  descending in them); the sort is a permutation of the table, and rows that tie on
  both metrics keep the order they have in the table. There is no sort on the group key.
  When the table is the summary that \<^verbatim>\<open>calc_full_oos_streaks\<close> has just returned, as in
  \<^verbatim>\<open>daily_store_product.py\<close>, it is in ascending (store, product) order, so tied rows
  come out in ascending (store, product) order and the view is determined.
\<close>

theorem C3_ranked_view:
  "sorted (map rank_cols (top n summ))
   \<and> sorted_wrt (\<lambda>a b. max_full_oos_streak_days b \<le> max_full_oos_streak_days a) (top n summ)
   \<and> top n summ = take n (top (length summ) summ)
   \<and> mset (top (length summ) summ) = mset summ
   \<and> filter (\<lambda>s. rank_cols s = c) (top (length summ) summ) = filter (\<lambda>s. rank_cols s = c) summ
   \<and> sorted (map (\<lambda>s. (rank_cols s, sum_group s))
        (top n (snd (snd (calc_full_oos_streaks df thr)))))"
proof -
  have full: "top (length summ) summ = sort_key rank_cols summ"
    by (simp add: top_def sort_values_def)
  have 1: "sorted (map rank_cols (top n summ))"
    by (simp add: top_def sort_values_def take_map [symmetric] sorted_wrt_take)
  then have "sorted_wrt (\<lambda>a b. rank_cols a \<le> rank_cols b) (top n summ)"
    by (simp only: sorted_map)
  then have 2: "sorted_wrt (\<lambda>a b. max_full_oos_streak_days b \<le> max_full_oos_streak_days a) (top n summ)"
    by (rule sorted_wrt_mono_rel [rotated]) (auto simp: rank_cols_def less_eq_prod_def)
  have 3: "top n summ = take n (top (length summ) summ)"
    by (simp add: top_def sort_values_def)
  have 4: "mset (top (length summ) summ) = mset summ" by (simp add: full)
  have 5: "filter (\<lambda>s. rank_cols s = c) (top (length summ) summ) = filter (\<lambda>s. rank_cols s = c) summ"
    unfolding full by (rule sort_key_stable)
  have "sorted (map (\<lambda>s. (rank_cols s, sum_group s))
      (sort_key rank_cols (snd (snd (calc_full_oos_streaks df thr)))))"
    using summary_sorted by (rule sort_key_lex)
  then have 6: "sorted (map (\<lambda>s. (rank_cols s, sum_group s))
        (top n (snd (snd (calc_full_oos_streaks df thr)))))"
    by (simp add: top_def sort_values_def take_map [symmetric] sorted_wrt_take)
  show ?thesis using 1 2 3 4 5 6 by blast
qed

theorem C3_ranked_view_witness:
  "map sum_group (top 2 tied_summaries) = [(''B'', ''P''), (''A'', ''P'')]
   \<and> sorted (map rank_cols (top 2 tied_summaries))
   \<and> top 2 tied_summaries = take 2 (top (length tied_summaries) tied_summaries)"
proof -
  have "map sum_group (top 2 tied_summaries) = [(''B'', ''P''), (''A'', ''P'')]"
    by code_simp
  then show ?thesis
    using C3_ranked_view [of 2 tied_summaries] by blast
qed



subsection \<open>C4: the longest flagged run, the earliest on a tie\<close>

text \<open>
  C4. Every row of the summary reports a flagged run of its group from the run table:
  its length, start date and end date. No flagged run of the group is longer, and every
  flagged run of the group with the same length starts on the same date or later; so
  among two or more flagged runs of equal greatest length the earliest is the one
  reported. (The sort on the length is stable and the run table is in run order,
  which within a group is date order.)
\<close>

theorem C4_max_streak_tie_break:
  "\<forall>s\<in>set (snd (snd (calc_full_oos_streaks df thr))).
     \<exists>r\<in>set (fst (snd (calc_full_oos_streaks df thr))).
        run_group r = sum_group s \<and> run_is_full_oos r
        \<and> max_full_oos_streak_days s = days r
        \<and> max_streak_start_dt s = start_dt r
        \<and> max_streak_end_dt s = end_dt r
        \<and> (\<forall>r'\<in>set (fst (snd (calc_full_oos_streaks df thr))).
              run_group r' = sum_group s \<and> run_is_full_oos r' \<longrightarrow>
                days r' \<le> days r \<and> (days r' = days r \<longrightarrow> start_dt r \<le> start_dt r'))"
proof
  fix s assume "s \<in> set (snd (snd (calc_full_oos_streaks df thr)))"
  then obtain r where r: "r \<in> set (max_streaks (fst (snd (calc_full_oos_streaks df thr))))"
    and k: "sum_group s = run_group r"
    and m: "max_full_oos_streak_days s = days r"
    and b: "max_streak_start_dt s = start_dt r" "max_streak_end_dt s = end_dt r"
    by (rule summary_row)
  have 1: "r \<in> set (fst (snd (calc_full_oos_streaks df thr)))" "run_is_full_oos r"
    using r by (rule max_streaks_pick)+
  have 2: "\<forall>r'\<in>set (fst (snd (calc_full_oos_streaks df thr))).
      run_group r' = sum_group s \<and> run_is_full_oos r' \<longrightarrow>
        days r' \<le> days r \<and> (days r' = days r \<longrightarrow> start_dt r \<le> start_dt r')"
    using max_streaks_pick(3) [OF r] max_streak_earliest [OF r] k by auto
  show "\<exists>r\<in>set (fst (snd (calc_full_oos_streaks df thr))).
        run_group r = sum_group s \<and> run_is_full_oos r
        \<and> max_full_oos_streak_days s = days r
        \<and> max_streak_start_dt s = start_dt r
        \<and> max_streak_end_dt s = end_dt r
        \<and> (\<forall>r'\<in>set (fst (snd (calc_full_oos_streaks df thr))).
              run_group r' = sum_group s \<and> run_is_full_oos r' \<longrightarrow>
                days r' \<le> days r \<and> (days r' = days r \<longrightarrow> start_dt r \<le> start_dt r'))"
    using 1 2 k m b by (intro bexI [of _ r]) simp_all
qed

theorem C4_max_streak_tie_break_witness:
  "map (\<lambda>r. (run_is_full_oos r, start_dt r, end_dt r, days r))
     (fst (snd (calc_full_oos_streaks tie_example (999 / 1000))))
     = [(True, 1, 2, 2), (False, 3, 3, 1), (True, 4, 5, 2), (False, 6, 6, 1), (True, 7, 7, 1)]
   \<and> map (\<lambda>s. (max_streak_start_dt s, max_streak_end_dt s, max_full_oos_streak_days s))
       (snd (snd (calc_full_oos_streaks tie_example (999 / 1000)))) = [(1, 2, 2)]
   \<and> (\<exists>r\<in>set (fst (snd (calc_full_oos_streaks tie_example (999 / 1000)))).
        run_group r = sum_group (hd (snd (snd (calc_full_oos_streaks tie_example (999 / 1000)))))
        \<and> run_is_full_oos r
        \<and> max_full_oos_streak_days
             (hd (snd (snd (calc_full_oos_streaks tie_example (999 / 1000))))) = days r
        \<and> max_streak_start_dt
             (hd (snd (snd (calc_full_oos_streaks tie_example (999 / 1000))))) = start_dt r
        \<and> max_streak_end_dt
             (hd (snd (snd (calc_full_oos_streaks tie_example (999 / 1000))))) = end_dt r)"
proof -
  have 1: "map (\<lambda>r. (run_is_full_oos r, start_dt r, end_dt r, days r))
     (fst (snd (calc_full_oos_streaks tie_example (999 / 1000))))
     = [(True, 1, 2, 2), (False, 3, 3, 1), (True, 4, 5, 2), (False, 6, 6, 1), (True, 7, 7, 1)]"
    by (simp only: calc_tie_example snd_conv fst_conv list.map run.simps)
  have 2: "map (\<lambda>s. (max_streak_start_dt s, max_streak_end_dt s, max_full_oos_streak_days s))
       (snd (snd (calc_full_oos_streaks tie_example (999 / 1000)))) = [(1, 2, 2)]"
    by (simp only: calc_tie_example snd_conv fst_conv list.map summary.simps)
  have 3: "hd (snd (snd (calc_full_oos_streaks tie_example (999 / 1000))))
      \<in> set (snd (snd (calc_full_oos_streaks tie_example (999 / 1000))))"
    by (simp add: calc_tie_example)
  show ?thesis
    using 1 2 C4_max_streak_tie_break [of tie_example "999 / 1000", rule_format, OF 3]
    by blast
qed


subsection \<open>C5: adjacency is by record, not by calendar\<close>

text \<open>
  C5. Within a group, in the returned daily table, the run id of a record is the run id of
  the record before it when the two flags are equal, and one more when they differ; the
  dates play no part, so two same-flag neighbours stay in one run across a calendar gap.
  The \<open>days\<close> of every run is the number of its records. On the rows of days 1, 2, 4, 5
  of one group, all flagged, the run table is the single run of length 4 from 1 to 5.
\<close>

theorem C5_record_adjacency:
  "(\<forall>i. Suc i < length (filter (\<lambda>x. group_cols x = k) (fst (calc_full_oos_streaks df thr))) \<longrightarrow>
      run_id (filter (\<lambda>x. group_cols x = k) (fst (calc_full_oos_streaks df thr)) ! Suc i) =
      run_id (filter (\<lambda>x. group_cols x = k) (fst (calc_full_oos_streaks df thr)) ! i)
        + of_bool
            (is_full_oos (filter (\<lambda>x. group_cols x = k) (fst (calc_full_oos_streaks df thr)) ! Suc i)
             \<noteq> is_full_oos (filter (\<lambda>x. group_cols x = k) (fst (calc_full_oos_streaks df thr)) ! i)))
   \<and> (\<forall>r\<in>set (fst (snd (calc_full_oos_streaks df thr))).
        days r = length (run_members (fst (calc_full_oos_streaks df thr)) r))
   \<and> map dt gap_example = [1, 2, 4, 5]
   \<and> map (\<lambda>r. full_oos_flag (999 / 1000) (oos_rate r)) gap_example = [True, True, True, True]
   \<and> map group_cols gap_example = replicate 4 (''S1'', ''P1'')
   \<and> fst (snd (calc_full_oos_streaks gap_example (999 / 1000))) =
       [\<lparr>run_store_name = ''S1'', run_e_code = ''P1'', run_run_id = 1,
         run_is_full_oos = True, start_dt = 1, end_dt = 5, days = 4\<rparr>]"
proof -
  have 1: "\<forall>i. Suc i < length (filter (\<lambda>x. group_cols x = k) (fst (calc_full_oos_streaks df thr))) \<longrightarrow>
      run_id (filter (\<lambda>x. group_cols x = k) (fst (calc_full_oos_streaks df thr)) ! Suc i) =
      run_id (filter (\<lambda>x. group_cols x = k) (fst (calc_full_oos_streaks df thr)) ! i)
        + of_bool
            (is_full_oos (filter (\<lambda>x. group_cols x = k) (fst (calc_full_oos_streaks df thr)) ! Suc i)
             \<noteq> is_full_oos (filter (\<lambda>x. group_cols x = k) (fst (calc_full_oos_streaks df thr)) ! i))"
    unfolding group_df_run_ids using group_run_id_step by blast
  have 2: "\<forall>r\<in>set (fst (snd (calc_full_oos_streaks df thr))).
        days r = length (run_members (fst (calc_full_oos_streaks df thr)) r)"
    using run_days_members by blast
  have 3: "fst (snd (calc_full_oos_streaks gap_example (999 / 1000))) =
       [\<lparr>run_store_name = ''S1'', run_e_code = ''P1'', run_run_id = 1,
         run_is_full_oos = True, start_dt = 1, end_dt = 5, days = 4\<rparr>]"
    by (simp add: calc_gap_example)
  show ?thesis using 1 2 3 gap_example_flags by blast
qed

theorem C5_record_adjacency_witness:
  "map (\<lambda>x. (dt x, is_full_oos x, run_id x))
     (filter (\<lambda>x. group_cols x = (''S1'', ''P1''))
       (fst (calc_full_oos_streaks gap_example (999 / 1000))))
     = [(1, True, 1), (2, True, 1), (4, True, 1), (5, True, 1)]
   \<and> run_id (filter (\<lambda>x. group_cols x = (''S1'', ''P1''))
        (fst (calc_full_oos_streaks gap_example (999 / 1000))) ! Suc 1) =
      run_id (filter (\<lambda>x. group_cols x = (''S1'', ''P1''))
        (fst (calc_full_oos_streaks gap_example (999 / 1000))) ! 1)
      + of_bool
          (is_full_oos (filter (\<lambda>x. group_cols x = (''S1'', ''P1''))
             (fst (calc_full_oos_streaks gap_example (999 / 1000))) ! Suc 1)
           \<noteq> is_full_oos (filter (\<lambda>x. group_cols x = (''S1'', ''P1''))
             (fst (calc_full_oos_streaks gap_example (999 / 1000))) ! 1))"
proof -
  let ?g = "filter (\<lambda>x. group_cols x = (''S1'', ''P1''))
       (fst (calc_full_oos_streaks gap_example (999 / 1000)))"
  have g: "map (\<lambda>x. (dt x, is_full_oos x, run_id x)) ?g
      = [(1, True, 1), (2, True, 1), (4, True, 1), (5, True, 1)]"
    by (rule gap_group_rows)
  have "length (map (\<lambda>x. (dt x, is_full_oos x, run_id x)) ?g) = 4"
    by (simp only: g) simp
  then have len: "Suc 1 < length ?g" by simp
  show ?thesis
    using g len C5_record_adjacency [of "(''S1'', ''P1'')" gap_example "999 / 1000"]
    by blast
qed

subsection \<open>C6: the classifier\<close>

text \<open>
  C6 says the flag is true iff \<open>oos_rate \<ge> threshold\<close> and false whenever the rate is
  null, for every threshold. Line 72 replaces a null rate by 0 before it compares, so
  with a threshold of 0 (or below) a null rate is flagged: the claim as stated fails there.
\<close>

theorem C6_null_rate_counterexample:
  "full_oos_flag 0 (sql_oos_rate 0 0) \<and> is_full_oos (add_is_full_oos 0
     \<lparr>dt = 1, store_name = ''S'', e_code = ''P'', oos_cnt = 0, total_cnt = 0,
      oos_rate = sql_oos_rate 0 0\<rparr>)"
  by (simp add: full_oos_flag_def fillna_def sql_oos_rate_def add_is_full_oos_def)

text \<open>
  C6, amended: the flag of a row is \<open>fillna 0 oos_rate \<ge> threshold\<close>. For a rate that is
  not null it is true iff \<open>oos_rate \<ge> threshold\<close>; for a null rate (\<open>total_cnt = 0\<close>) it is
  false whenever the threshold is positive, and true otherwise. The function is total: no
  input makes it fail. With threshold 0.999, a rate of 0.9991 is flagged and 0.9989 is not.
\<close>

theorem C6_classifier:
  "is_full_oos (add_is_full_oos thr r) = full_oos_flag thr (oos_rate r)
   \<and> (full_oos_flag thr (Some q) \<longleftrightarrow> thr \<le> q)
   \<and> (full_oos_flag thr None \<longleftrightarrow> thr \<le> 0)
   \<and> (full_oos_flag thr (sql_oos_rate oos 0) \<longleftrightarrow> thr \<le> 0)
   \<and> full_oos_flag (999 / 1000) (Some (9991 / 10000))
   \<and> \<not> full_oos_flag (999 / 1000) (Some (9989 / 10000))"
  by (simp add: full_oos_flag_def fillna_def sql_oos_rate_def add_is_full_oos_def)

theorem C6_classifier_witness:
  "\<not> full_oos_flag (999 / 1000) None
   \<and> \<not> full_oos_flag (999 / 1000) (sql_oos_rate 7 0)
   \<and> full_oos_flag (999 / 1000) (Some 1)"
  using C6_classifier [of "999 / 1000" _ 1 7] by simp


subsection \<open>C7: the total is the sum over the flagged runs\<close>

text \<open>
  C7. For every row of the summary, \<open>total_full_oos_days\<close> is the sum of \<open>days\<close> over the
  flagged runs of the row's group in the run table, whichever of them gave the maximum.
  For the flags true, true, false, true, true, true on six consecutive days of one group
  the runs are (true, 2), (false, 1), (true, 3), the maximum is 3 and the total is 5.
\<close>

theorem C7_total_is_sum_of_true_runs:
  "(\<forall>s\<in>set (snd (snd (calc_full_oos_streaks df thr))).
      total_full_oos_days s =
        sum_list (map days (filter (\<lambda>r. run_group r = sum_group s \<and> run_is_full_oos r)
          (fst (snd (calc_full_oos_streaks df thr))))))
   \<and> map dt six_days_example = [1, 2, 3, 4, 5, 6]
   \<and> map (\<lambda>r. full_oos_flag (999 / 1000) (oos_rate r)) six_days_example
       = [True, True, False, True, True, True]
   \<and> map group_cols six_days_example = replicate 6 (''S1'', ''P1'')
   \<and> map (\<lambda>r. (run_is_full_oos r, days r))
        (fst (snd (calc_full_oos_streaks six_days_example (999 / 1000))))
       = [(True, 2), (False, 1), (True, 3)]
   \<and> map max_full_oos_streak_days
        (snd (snd (calc_full_oos_streaks six_days_example (999 / 1000)))) = [3]
   \<and> map total_full_oos_days
        (snd (snd (calc_full_oos_streaks six_days_example (999 / 1000)))) = [5]"
proof -
  have "\<forall>s\<in>set (snd (snd (calc_full_oos_streaks df thr))).
      total_full_oos_days s =
        sum_list (map days (filter (\<lambda>r. run_group r = sum_group s \<and> run_is_full_oos r)
          (fst (snd (calc_full_oos_streaks df thr)))))"
  proof
    fix s assume "s \<in> set (snd (snd (calc_full_oos_streaks df thr)))"
    then obtain r where k: "sum_group s = run_group r"
      and t: "total_full_oos_days s =
           length (filter is_full_oos (filter (\<lambda>x. group_cols x = run_group r)
             (fst (calc_full_oos_streaks df thr))))"
      by (rule summary_row)
    have "filter (\<lambda>x. run_group x = sum_group s \<and> run_is_full_oos x)
          (fst (snd (calc_full_oos_streaks df thr))) =
       filter run_is_full_oos (filter (\<lambda>x. run_group x = run_group r)
          (fst (snd (calc_full_oos_streaks df thr))))"
      by (simp add: k)
    then show "total_full_oos_days s =
        sum_list (map days (filter (\<lambda>r. run_group r = sum_group s \<and> run_is_full_oos r)
          (fst (snd (calc_full_oos_streaks df thr)))))"
      by (simp only: t group_total_days)
  qed
  then show ?thesis using six_days_example_outputs six_days_example_rows by blast
qed

theorem C7_total_is_sum_of_true_runs_witness:
  "map total_full_oos_days (snd (snd (calc_full_oos_streaks six_days_example (999 / 1000)))) = [5]
   \<and> total_full_oos_days (hd (snd (snd (calc_full_oos_streaks six_days_example (999 / 1000))))) =
        sum_list (map days
          (filter (\<lambda>r. run_group r
                = sum_group (hd (snd (snd (calc_full_oos_streaks six_days_example (999 / 1000)))))
              \<and> run_is_full_oos r)
            (fst (snd (calc_full_oos_streaks six_days_example (999 / 1000))))))"
proof -
  have "hd (snd (snd (calc_full_oos_streaks six_days_example (999 / 1000))))
      \<in> set (snd (snd (calc_full_oos_streaks six_days_example (999 / 1000))))"
    by (simp add: calc_six_days_example)
  then show ?thesis
    using C7_total_is_sum_of_true_runs [of six_days_example "999 / 1000"] by blast
qed

subsection \<open>C8: the runs of a group partition its records and alternate\<close>

text \<open>
  C8. For every group \<open>k\<close>: the group's records in the returned daily table are in date
  order; the member records of the group's runs, taken run after run, are exactly these
  records in this order, so the runs are contiguous, in order, and cover every record;
  the runs have distinct run ids, so a record belongs to one run only; every run has at
  least one record, its \<open>days\<close> is the number of its records, all its records carry its
  flag, and it starts and ends at its first and last record; and two adjacent runs never
  have the same flag.
\<close>

theorem C8_runs_partition_and_alternate:
  "sorted (map dt (filter (\<lambda>x. group_cols x = k) (fst (calc_full_oos_streaks df thr))))
   \<and> concat (map (run_members (fst (calc_full_oos_streaks df thr)))
        (filter (\<lambda>r. run_group r = k) (fst (snd (calc_full_oos_streaks df thr)))))
      = filter (\<lambda>x. group_cols x = k) (fst (calc_full_oos_streaks df thr))
   \<and> distinct (map run_run_id
        (filter (\<lambda>r. run_group r = k) (fst (snd (calc_full_oos_streaks df thr)))))
   \<and> (\<forall>r\<in>set (filter (\<lambda>r. run_group r = k) (fst (snd (calc_full_oos_streaks df thr)))).
        run_members (fst (calc_full_oos_streaks df thr)) r \<noteq> []
        \<and> days r = length (run_members (fst (calc_full_oos_streaks df thr)) r)
        \<and> (\<forall>x\<in>set (run_members (fst (calc_full_oos_streaks df thr)) r).
              is_full_oos x = run_is_full_oos r)
        \<and> start_dt r = dt (hd (run_members (fst (calc_full_oos_streaks df thr)) r))
        \<and> end_dt r = dt (last (run_members (fst (calc_full_oos_streaks df thr)) r)))
   \<and> distinct_adj (map run_is_full_oos
        (filter (\<lambda>r. run_group r = k) (fst (snd (calc_full_oos_streaks df thr)))))"
  by (rule group_partition)

theorem C8_runs_partition_and_alternate_witness:
  "map (\<lambda>r. (run_is_full_oos r, days r))
     (filter (\<lambda>r. run_group r = (''S1'', ''P1''))
       (fst (snd (calc_full_oos_streaks six_days_example (999 / 1000)))))
     = [(True, 2), (False, 1), (True, 3)]
   \<and> distinct_adj (map run_is_full_oos
        (filter (\<lambda>r. run_group r = (''S1'', ''P1''))
          (fst (snd (calc_full_oos_streaks six_days_example (999 / 1000))))))"
proof
  show "map (\<lambda>r. (run_is_full_oos r, days r))
     (filter (\<lambda>r. run_group r = (''S1'', ''P1''))
       (fst (snd (calc_full_oos_streaks six_days_example (999 / 1000)))))
     = [(True, 2), (False, 1), (True, 3)]"
    by (simp add: calc_six_days_example run_group_def)
  show "distinct_adj (map run_is_full_oos
        (filter (\<lambda>r. run_group r = (''S1'', ''P1''))
          (fst (snd (calc_full_oos_streaks six_days_example (999 / 1000))))))"
    using C8_runs_partition_and_alternate [of "(''S1'', ''P1'')" six_days_example "999 / 1000"]
    by (elim conjE)
qed

subsection \<open>C9: the caller's table is left as it was\<close>

text \<open>
  C9. Called on the address of a daily table in any store, the function returns, and in
  the store afterwards every object that was there before the call is unchanged, the
  caller's table among them (no column added, no row moved or changed): the column
  assignments go to the copy of line 69 and to the sorted frame of line 75. The three
  tables returned are three different objects that did not exist before the call, and
  they hold the three outputs computed from the caller's rows.
\<close>

theorem C9_input_not_mutated:
  assumes "df < length h" and "h ! df = Daily rows"
  shows "\<exists>d r s h'.
     calc_full_oos_streaks_store df thr h = Some ((d, r, s), h')
     \<and> take (length h) h' = h
     \<and> h' ! df = Daily rows
     \<and> length h \<le> d \<and> length h \<le> r \<and> length h \<le> s
     \<and> d < length h' \<and> r < length h' \<and> s < length h'
     \<and> distinct [d, r, s]
     \<and> h' ! d = Runrows (fst (calc_full_oos_streaks rows thr))
     \<and> h' ! r = Runs (fst (snd (calc_full_oos_streaks rows thr)))
     \<and> h' ! s = Summaries (snd (snd (calc_full_oos_streaks rows thr)))"
  using assms by (simp add: calc_store_result [OF assms] nth_append)

theorem C9_input_not_mutated_witness:
  "\<exists>d r s h'.
     calc_full_oos_streaks_store 0 (999 / 1000) [Daily gap_example] = Some ((d, r, s), h')
     \<and> take 1 h' = [Daily gap_example]
     \<and> h' ! 0 = Daily gap_example
     \<and> 1 \<le> d \<and> 1 \<le> r \<and> 1 \<le> s
     \<and> distinct [d, r, s]
     \<and> h' ! r = Runs (fst (snd (calc_full_oos_streaks gap_example (999 / 1000))))"
  using C9_input_not_mutated [of 0 "[Daily gap_example]" gap_example "999 / 1000"]
  by simp blast

subsection \<open>C10: the order of the input rows\<close>

text \<open>
  C10. When no two input rows have the same (store, product, date), every permutation of
  the input rows gives the same three outputs: the same daily table, the same run table
  and the same summary. The function sorts on these three columns itself.
\<close>

theorem C10_permutation_invariant:
  assumes "mset df' = mset df" and "distinct (map sort_cols df)"
  shows "calc_full_oos_streaks df' thr = calc_full_oos_streaks df thr"
proof -
  let ?f = "map (add_is_full_oos thr)"
  have m: "mset (?f df') = mset (?f df)" using assms(1) by simp
  have "distinct (map sort_cols (?f df))" using assms(2) by (simp add: comp_def)
  then have "inj_on sort_cols (set (?f df))" by (simp only: distinct_map)
  then have inj: "inj_on sort_cols (set (?f df'))" by (simp only: mset_eq_setD [OF m])
  have m': "mset (?f df') = mset (sort_key sort_cols (?f df))" using m by simp
  have "sort_key sort_cols (?f df') = sort_key sort_cols (?f df)"
    by (rule sort_key_inj_key_eq [OF m' inj]) simp
  then show ?thesis by (simp add: calc_full_oos_streaks_def sort_values_def)
qed

theorem C10_permutation_invariant_witness:
  "mset (rev six_days_example) = mset six_days_example
   \<and> distinct (map sort_cols six_days_example)
   \<and> calc_full_oos_streaks (rev six_days_example) (999 / 1000) =
       calc_full_oos_streaks six_days_example (999 / 1000)"
proof -
  have 1: "mset (rev six_days_example) = mset six_days_example" by simp
  have 2: "distinct (map sort_cols six_days_example)" by code_simp
  show ?thesis
    using 1 2 C10_permutation_invariant [OF 1 2, of "999 / 1000"] by blast
qed

end
